theory Spec2Isabelle
  imports Complex_Main
begin

section \<open>Data model\<close>

text \<open>
  The map cache of the lobby (class \<open>CacheAPI\<close>): it lists the maps directory,
  parses every archive that needs caching with the external map parser, writes four
  images, stores the metadata row in the \<open>maps\<close> table and keeps \<open>cachedMaps\<close>,
  the in-memory index, in step.

  The parser's output types (\<open>SpringMap\<close>, its \<open>mapInfo\<close>, \<open>smd\<close> and \<open>smf\<close>
  parts) belong to the parser library; only the fields that \<open>parseMapData\<close> reads are
  modelled, with a prefix per type. A field that may be \<open>undefined\<close> is an
  \<open>option\<close>. Numbers that are only passed through are \<open>real\<close>; the map size
  units are integers.
\<close>

type_synonym StartPos = "real \<times> real"

type_synonym image = "nat list"

record SMD =
  smd_description :: "string option"
  smd_mapHardness :: "real option"
  smd_gravity :: "real option"
  smd_tidalStrength :: "real option"
  smd_maxMetal :: "real option"
  smd_extractorRadius :: "real option"
  smd_minWind :: "real option"
  smd_maxWind :: "real option"
  smd_startPositions :: "StartPos list option"

record Atmosphere =
  atm_minWind :: "real option"
  atm_maxWind :: "real option"

record Team =
  team_startPos :: StartPos

record MapInfo =
  mi_description :: "string option"
  mi_maphardness :: "real option"
  mi_gravity :: "real option"
  mi_tidalStrength :: "real option"
  mi_maxMetal :: "real option"
  mi_extractorRadius :: "real option"
  mi_atmosphere :: "Atmosphere option"
  mi_teams :: "Team option list option"

record SMF =
  mapWidthUnits :: int
  mapHeightUnits :: int

record SpringMap =
  sm_fileName :: string
  sm_fileNameWithExt :: string
  sm_scriptName :: string
  sm_minHeight :: real
  sm_maxHeight :: real
  sm_mapInfo :: "MapInfo option"
  sm_smd :: "SMD option"
  sm_smf :: "SMF option"
  sm_textureMap :: "image option"
  sm_metalMap :: "image option"
  sm_heightMap :: "image option"
  sm_typeMap :: "image option"

text \<open>The record that is cached for one archive (\<open>MapData\<close>), as \<open>parseMapData\<close> builds it.\<close>

record MapData =
  fileName :: string
  fileNameWithExt :: string
  scriptName :: string
  description :: "string option"
  mapHardness :: "real option"
  gravity :: "real option"
  tidalStrength :: "real option"
  maxMetal :: "real option"
  extractorRadius :: "real option"
  minWind :: "real option"
  maxWind :: "real option"
  startPositions :: "StartPos list option"
  width :: int
  height :: int
  minDepth :: real
  maxDepth :: real
  mapInfo :: "MapInfo option"

record MapCacheProgress =
  totalMapsToCache :: nat
  currentMapsCached :: nat
  currentMapCaching :: string

text \<open>
  What \<open>ipcMain.emit\<close> sends: the channel \<open>map-cache-progress\<close> with a progress
  payload, the channel \<open>map-cached\<close> with the cached record.
\<close>

datatype event = Map_cache_progress MapCacheProgress | Map_cached MapData

datatype error = ReaddirError | ParseError | TypeError | WriteError | DbError

text \<open>
  Everything the cache does that is visible outside it, in the order it happens:
  events, calls of the parser, image files written, rows replaced, errors logged.
\<close>

datatype effect =
    Emit event
  | ParseMap string
  | WriteAsync string
  | Replace string
  | ConsoleError string error

text \<open>
  The surroundings of the cache, fixed while nothing on disk changes: the data directory,
  the directory listing (\<open>None\<close> when \<open>readdir\<close> rejects), the parser (\<open>None\<close> when
  \<open>parseMap\<close> rejects), and whether writing a file or replacing a row succeeds.
\<close>

record world =
  dataDir :: string
  readdir :: "string \<Rightarrow> string list option"
  parseMap :: "string \<Rightarrow> SpringMap option"
  writeAsyncOk :: "string \<Rightarrow> bool"
  replaceOk :: "string \<Rightarrow> bool"

text \<open>
  The state: \<open>cachedMaps\<close> is the field of the class; \<open>db_maps\<close> is the table
  \<open>maps\<close> (the \<open>data\<close> column holds the record as JSON, modelled as the record);
  \<open>files\<close> are the image files written; \<open>trace\<close> is the list of effects so far.
\<close>

record state =
  cachedMaps :: "string \<rightharpoonup> MapData"
  db_maps :: "string \<rightharpoonup> MapData"
  files :: "string \<rightharpoonup> image"
  trace :: "effect list"

section \<open>Asynchronous steps that may throw\<close>

type_synonym 'a io = "state \<Rightarrow> (error + 'a) \<times> state"

definition io_return :: "'a \<Rightarrow> 'a io" where
  "io_return a s = (Inr a, s)"

definition io_throw :: "error \<Rightarrow> 'a io" where
  "io_throw e s = (Inl e, s)"

definition io_bind :: "'a io \<Rightarrow> ('a \<Rightarrow> 'b io) \<Rightarrow> 'b io" where
  "io_bind m f s = (case m s of (Inl e, s') \<Rightarrow> (Inl e, s') | (Inr a, s') \<Rightarrow> f a s')"

definition try_catch :: "'a io \<Rightarrow> (error \<Rightarrow> 'a io) \<Rightarrow> 'a io" where
  "try_catch m h s = (case m s of (Inl e, s') \<Rightarrow> h e s' | (Inr a, s') \<Rightarrow> (Inr a, s'))"

definition log :: "effect \<Rightarrow> unit io" where
  "log x s = (Inr (), s\<lparr>trace := trace s @ [x]\<rparr>)"

definition emit :: "event \<Rightarrow> unit io" where
  "emit e = log (Emit e)"

definition console_error :: "string \<Rightarrow> error \<Rightarrow> unit io" where
  "console_error p e = log (ConsoleError p e)"

section \<open>JavaScript operators and library calls\<close>

text \<open>\<open>a ?? b\<close>: the right operand is taken only when the left one is \<open>undefined\<close>.\<close>

definition nullish :: "'a option \<Rightarrow> 'a option \<Rightarrow> 'a option" where
  "nullish a b = (case a of Some v \<Rightarrow> Some v | None \<Rightarrow> b)"

text \<open>
  \<open>a || b\<close> on optional strings: the right operand is taken when the left one is falsy,
  that is \<open>undefined\<close> or the empty string.
\<close>

definition truthy :: "string option \<Rightarrow> bool" where
  "truthy a = (case a of None \<Rightarrow> False | Some s \<Rightarrow> s \<noteq> [])"

definition logical_or :: "string option \<Rightarrow> string option \<Rightarrow> string option" where
  "logical_or a b = (if truthy a then a else b)"

text \<open>\<open>a?.f\<close> is \<open>Option.bind a f\<close> for an optional field, \<open>map_option f a\<close> for a required one.\<close>

definition is_space :: "char \<Rightarrow> bool" where
  "is_space c = (c \<in> set [CHR '' '', CHR 0x09, CHR 0x0A, CHR 0x0B, CHR 0x0C, CHR 0x0D])"

text \<open>\<open>String.prototype.trim\<close>, on the ASCII white space characters.\<close>

definition trim :: "string \<Rightarrow> string" where
  "trim s = rev (dropWhile is_space (rev (dropWhile is_space s)))"

definition endsWith :: "string \<Rightarrow> string \<Rightarrow> bool" where
  "endsWith s suf = (length suf \<le> length s \<and> drop (length s - length suf) s = suf)"

text \<open>\<open>path.join\<close> of a directory and a name that needs no normalisation.\<close>

definition path_join :: "string \<Rightarrow> string \<Rightarrow> string" where
  "path_join a b = a @ ''/'' @ b"

section \<open>parseMapData\<close>

text \<open>
  \<open>teams.map(obj => obj!.startPos)\<close>: reading \<open>startPos\<close> of an \<open>undefined\<close> element
  throws a TypeError.
\<close>

fun teams_startPos :: "Team option list \<Rightarrow> error + StartPos list" where
  "teams_startPos [] = Inr []"
| "teams_startPos (None # ts) = Inl TypeError"
| "teams_startPos (Some t # ts) =
     (case teams_startPos ts of Inl e \<Rightarrow> Inl e | Inr ps \<Rightarrow> Inr (team_startPos t # ps))"

definition modern_startPositions :: "SpringMap \<Rightarrow> error + StartPos list option" where
  "modern_startPositions m =
     (case Option.bind (sm_mapInfo m) mi_teams of
        None \<Rightarrow> Inr None
      | Some ts \<Rightarrow> (case teams_startPos ts of Inl e \<Rightarrow> Inl e | Inr ps \<Rightarrow> Inr (Some ps)))"

definition parseMapData :: "SpringMap \<Rightarrow> error + MapData" where
  "parseMapData m =
     (case modern_startPositions m of
        Inl e \<Rightarrow> Inl e
      | Inr modernPositions \<Rightarrow>
          (case sm_smf m of
             None \<Rightarrow> Inl TypeError
           | Some f \<Rightarrow> Inr \<lparr>
               fileName = sm_fileName m,
               fileNameWithExt = sm_fileNameWithExt m,
               scriptName = trim (sm_scriptName m),
               description = logical_or (Option.bind (sm_mapInfo m) mi_description)
                                        (Option.bind (sm_smd m) smd_description),
               mapHardness = nullish (Option.bind (sm_mapInfo m) mi_maphardness)
                                     (Option.bind (sm_smd m) smd_mapHardness),
               gravity = nullish (Option.bind (sm_mapInfo m) mi_gravity)
                                 (Option.bind (sm_smd m) smd_gravity),
               tidalStrength = nullish (Option.bind (sm_mapInfo m) mi_tidalStrength)
                                       (Option.bind (sm_smd m) smd_tidalStrength),
               maxMetal = nullish (Option.bind (sm_mapInfo m) mi_maxMetal)
                                  (Option.bind (sm_smd m) smd_maxMetal),
               extractorRadius = nullish (Option.bind (sm_mapInfo m) mi_extractorRadius)
                                         (Option.bind (sm_smd m) smd_extractorRadius),
               minWind = nullish (Option.bind (Option.bind (sm_mapInfo m) mi_atmosphere) atm_minWind)
                                 (Option.bind (sm_smd m) smd_minWind),
               maxWind = nullish (Option.bind (Option.bind (sm_mapInfo m) mi_atmosphere) atm_maxWind)
                                 (Option.bind (sm_smd m) smd_maxWind),
               startPositions = nullish modernPositions
                                        (Option.bind (sm_smd m) smd_startPositions),
               width = mapWidthUnits f * 2,
               height = mapHeightUnits f * 2,
               minDepth = sm_minHeight m,
               maxDepth = sm_maxHeight m,
               mapInfo = sm_mapInfo m \<rparr>))"

section \<open>cacheMap\<close>

definition getMapsPath :: "world \<Rightarrow> string" where
  "getMapsPath w = path_join (dataDir w) ''maps''"

definition getMapImagesPath :: "world \<Rightarrow> string" where
  "getMapImagesPath w = path_join (dataDir w) ''map-images''"

definition destPath :: "world \<Rightarrow> MapData \<Rightarrow> string \<Rightarrow> string" where
  "destPath w mapData name =
     path_join (getMapImagesPath w) (fileName mapData @ ''-'' @ name @ ''.png'')"

definition parser_parseMap :: "world \<Rightarrow> string \<Rightarrow> SpringMap io" where
  "parser_parseMap w mapFilePath =
     io_bind (log (ParseMap mapFilePath)) (\<lambda>_.
       case parseMap w mapFilePath of
         None \<Rightarrow> io_throw ParseError
       | Some m \<Rightarrow> io_return m)"

text \<open>
  \<open>img!.writeAsync(p)\<close>: a TypeError when the image is \<open>undefined\<close>, a write error
  when the file cannot be written, and otherwise the file is there.
\<close>

definition writeAsync :: "world \<Rightarrow> image option \<Rightarrow> string \<Rightarrow> unit io" where
  "writeAsync w img p =
     (case img of
        None \<Rightarrow> io_throw TypeError
      | Some i \<Rightarrow>
          if writeAsyncOk w p
          then io_bind (log (WriteAsync p)) (\<lambda>_ s. (Inr (), s\<lparr>files := (files s)(p \<mapsto> i)\<rparr>))
          else io_throw WriteError)"

text \<open>
  The prepared statement \<open>REPLACE INTO maps (filename, data) VALUES (?, ?)\<close>: the row of
  the key is written or replaced as a whole, or the call throws and the table is as before.
\<close>

definition query_get :: "world \<Rightarrow> string \<Rightarrow> MapData \<Rightarrow> unit io" where
  "query_get w key mapData =
     (if replaceOk w key
      then io_bind (log (Replace key)) (\<lambda>_ s. (Inr (), s\<lparr>db_maps := (db_maps s)(key \<mapsto> mapData)\<rparr>))
      else io_throw DbError)"

definition set_cachedMaps :: "string \<Rightarrow> MapData \<Rightarrow> unit io" where
  "set_cachedMaps key mapData s = (Inr (), s\<lparr>cachedMaps := (cachedMaps s)(key \<mapsto> mapData)\<rparr>)"

definition cacheMap :: "world \<Rightarrow> string \<Rightarrow> unit io" where
  "cacheMap w mapFilePath =
     try_catch
       (io_bind (parser_parseMap w mapFilePath) (\<lambda>m.
        io_bind (case parseMapData m of Inl e \<Rightarrow> io_throw e | Inr d \<Rightarrow> io_return d) (\<lambda>mapData.
        io_bind (writeAsync w (sm_textureMap m) (destPath w mapData ''texture'')) (\<lambda>_.
        io_bind (writeAsync w (sm_metalMap m) (destPath w mapData ''metal'')) (\<lambda>_.
        io_bind (writeAsync w (sm_heightMap m) (destPath w mapData ''height'')) (\<lambda>_.
        io_bind (writeAsync w (sm_typeMap m) (destPath w mapData ''type'')) (\<lambda>_.
        io_bind (query_get w (fileNameWithExt mapData) mapData) (\<lambda>_.
        io_bind (set_cachedMaps (fileNameWithExt mapData) mapData) (\<lambda>_.
        emit (Map_cached mapData))))))))))
       (\<lambda>err. console_error mapFilePath err)"

section \<open>cacheMaps\<close>

definition recognized :: "string \<Rightarrow> bool" where
  "recognized fname = (endsWith fname ''.sd7'' \<or> endsWith fname ''.sdz'')"

text \<open>
  The filter of \<open>cacheMaps\<close>; \<open>cachedMapFileNames.includes(fileName)\<close> holds when the
  name is a key of \<open>cachedMaps\<close>.
\<close>

definition mapsToCache :: "bool \<Rightarrow> (string \<rightharpoonup> MapData) \<Rightarrow> string list \<Rightarrow> string list" where
  "mapsToCache recacheAll cached mapFileNames =
     filter (\<lambda>fname. (recacheAll \<or> cached fname = None) \<and> recognized fname) mapFileNames"

text \<open>The \<open>for\<close> loop over \<open>mapsToCache\<close>, with the counter \<open>mapsCached\<close>.\<close>

fun cacheMaps_loop :: "world \<Rightarrow> nat \<Rightarrow> string list \<Rightarrow> nat \<Rightarrow> unit io" where
  "cacheMaps_loop w totalMaps [] mapsCached = io_return ()"
| "cacheMaps_loop w totalMaps (mapFileName # rest) mapsCached =
     io_bind (emit (Map_cache_progress \<lparr>
                totalMapsToCache = totalMaps,
                currentMapsCached = mapsCached,
                currentMapCaching = mapFileName \<rparr>)) (\<lambda>_.
     io_bind (cacheMap w (path_join (getMapsPath w) mapFileName)) (\<lambda>_.
     cacheMaps_loop w totalMaps rest (mapsCached + 1)))"

definition fs_readdir :: "world \<Rightarrow> string \<Rightarrow> string list io" where
  "fs_readdir w p = (case readdir w p of None \<Rightarrow> io_throw ReaddirError | Some names \<Rightarrow> io_return names)"

definition cacheMaps :: "world \<Rightarrow> bool \<Rightarrow> unit io" where
  "cacheMaps w recacheAll =
     io_bind (fs_readdir w (getMapsPath w)) (\<lambda>mapFileNames s.
       let toCache = mapsToCache recacheAll (cachedMaps s) mapFileNames
       in cacheMaps_loop w (length toCache) toCache 0 s)"


section \<open>Observations used in the statements\<close>

text \<open>
  The record that caching the file at \<open>p\<close> stores, when every step of the \<open>try\<close> block
  of \<open>cacheMap\<close> goes through: the parser returns, \<open>parseMapData\<close> returns, the four
  images are there and are written, the row is replaced. \<open>None\<close> when one of them throws.
\<close>

definition image_written :: "world \<Rightarrow> image option \<Rightarrow> string \<Rightarrow> bool" where
  "image_written w img p = (img \<noteq> None \<and> writeAsyncOk w p)"

definition cached_record :: "world \<Rightarrow> string \<Rightarrow> MapData option" where
  "cached_record w p =
     (case parseMap w p of
        None \<Rightarrow> None
      | Some m \<Rightarrow>
          (case parseMapData m of
             Inl e \<Rightarrow> None
           | Inr d \<Rightarrow>
               if image_written w (sm_textureMap m) (destPath w d ''texture'')
                \<and> image_written w (sm_metalMap m) (destPath w d ''metal'')
                \<and> image_written w (sm_heightMap m) (destPath w d ''height'')
                \<and> image_written w (sm_typeMap m) (destPath w d ''type'')
                \<and> replaceOk w (fileNameWithExt d)
               then Some d else None))"

text \<open>The path that \<open>cacheMaps\<close> hands to \<open>cacheMap\<close> for a file of the listing.\<close>

definition mapFilePath :: "world \<Rightarrow> string \<Rightarrow> string" where
  "mapFilePath w f = path_join (getMapsPath w) f"

text \<open>The parser reports the name of the file it was given as \<open>fileNameWithExt\<close>.\<close>

definition reports_own_name :: "world \<Rightarrow> string \<Rightarrow> bool" where
  "reports_own_name w f =
     (case parseMap w (mapFilePath w f) of None \<Rightarrow> True | Some m \<Rightarrow> sm_fileNameWithExt m = f)"

fun events_of :: "effect list \<Rightarrow> event list" where
  "events_of [] = []"
| "events_of (Emit e # t) = e # events_of t"
| "events_of (x # t) = events_of t"

fun parses_of :: "effect list \<Rightarrow> string list" where
  "parses_of [] = []"
| "parses_of (ParseMap p # t) = p # parses_of t"
| "parses_of (x # t) = parses_of t"

text \<open>The effects that happened between an earlier state and a later one.\<close>

definition new_effects :: "state \<Rightarrow> state \<Rightarrow> effect list" where
  "new_effects s s' = drop (length (trace s)) (trace s')"

text \<open>What one item of a batch does to the index and to the table.\<close>

definition store_record :: "world \<Rightarrow> string \<Rightarrow> (string \<rightharpoonup> MapData) \<Rightarrow> (string \<rightharpoonup> MapData)" where
  "store_record w f m =
     (case cached_record w (mapFilePath w f) of None \<Rightarrow> m | Some d \<Rightarrow> m(fileNameWithExt d \<mapsto> d))"

definition item_events :: "world \<Rightarrow> string \<Rightarrow> event list" where
  "item_events w f =
     (case cached_record w (mapFilePath w f) of None \<Rightarrow> [] | Some d \<Rightarrow> [Map_cached d])"

fun loop_events :: "world \<Rightarrow> nat \<Rightarrow> string list \<Rightarrow> nat \<Rightarrow> event list" where
  "loop_events w k [] n = []"
| "loop_events w k (f # fs) n =
     Map_cache_progress \<lparr>totalMapsToCache = k, currentMapsCached = n, currentMapCaching = f\<rparr>
       # item_events w f @ loop_events w k fs (Suc n)"


section \<open>Example inputs\<close>

definition example_smf :: SMF where
  "example_smf = \<lparr>mapWidthUnits = 4, mapHeightUnits = 3\<rparr>"

definition example_smd :: SMD where
  "example_smd = \<lparr>
     smd_description = Some ''legacy text'',
     smd_mapHardness = Some 100,
     smd_gravity = Some 130,
     smd_tidalStrength = Some 20,
     smd_maxMetal = Some 2,
     smd_extractorRadius = Some 90,
     smd_minWind = Some 5,
     smd_maxWind = Some 25,
     smd_startPositions = Some [(100, 200), (300, 400)] \<rparr>"

text \<open>Modern metadata with an empty description, a hardness and no gravity.\<close>

definition example_mapInfo :: MapInfo where
  "example_mapInfo = \<lparr>
     mi_description = Some [],
     mi_maphardness = Some 250,
     mi_gravity = None,
     mi_tidalStrength = None,
     mi_maxMetal = None,
     mi_extractorRadius = None,
     mi_atmosphere = Some \<lparr>atm_minWind = Some 1, atm_maxWind = None\<rparr>,
     mi_teams = None \<rparr>"

definition example_map :: "string \<Rightarrow> SpringMap" where
  "example_map f = \<lparr>
     sm_fileName = take (length f - 4) f,
     sm_fileNameWithExt = f,
     sm_scriptName = '' Example 1.0 '',
     sm_minHeight = 0,
     sm_maxHeight = 50,
     sm_mapInfo = Some example_mapInfo,
     sm_smd = Some example_smd,
     sm_smf = Some example_smf,
     sm_textureMap = Some [1],
     sm_metalMap = Some [2],
     sm_heightMap = Some [3],
     sm_typeMap = Some [4] \<rparr>"


definition empty_state :: state where
  "empty_state = \<lparr>cachedMaps = Map.empty, db_maps = Map.empty, files = Map.empty, trace = []\<rparr>"

text \<open>
  A world with the data directory \<open>data\<close>: the maps directory lists \<open>names\<close>, the parser
  rejects the files named in \<open>corrupt\<close> and returns \<open>example_map\<close> under the file's own
  name for every other file, and every write succeeds.
\<close>

definition example_world :: "string list \<Rightarrow> string list \<Rightarrow> world" where
  "example_world names corrupt = \<lparr>
     dataDir = ''data'',
     readdir = (\<lambda>p. if p = ''data/maps'' then Some names else None),
     parseMap = (\<lambda>p. if drop 10 p \<in> set corrupt then None else Some (example_map (drop 10 p))),
     writeAsyncOk = (\<lambda>p. True),
     replaceOk = (\<lambda>k. True) \<rparr>"

text \<open>A number of incremental batches, one after the other.\<close>

fun incremental_batches :: "world \<Rightarrow> nat \<Rightarrow> state \<Rightarrow> state" where
  "incremental_batches w 0 s = s"
| "incremental_batches w (Suc n) s = snd (cacheMaps w False (incremental_batches w n s))"

text \<open>A record left in the index and in the table by an earlier run, and such a state.\<close>

definition stale_record :: "string \<Rightarrow> MapData" where
  "stale_record f = \<lparr>
     fileName = take (length f - 4) f,
     fileNameWithExt = f,
     scriptName = ''Old 0.9'',
     description = None,
     mapHardness = None,
     gravity = None,
     tidalStrength = None,
     maxMetal = None,
     extractorRadius = None,
     minWind = None,
     maxWind = None,
     startPositions = None,
     width = 2,
     height = 2,
     minDepth = 0,
     maxDepth = 0,
     mapInfo = None \<rparr>"

definition stale_state :: "string \<Rightarrow> state" where
  "stale_state f = \<lparr>
     cachedMaps = [f \<mapsto> stale_record f],
     db_maps = [f \<mapsto> stale_record f],
     files = Map.empty,
     trace = [] \<rparr>"


section \<open>One item\<close>

lemma events_of_append: "events_of (t @ u) = events_of t @ events_of u"
  by (induction t rule: events_of.induct) simp_all

lemma parses_of_append: "parses_of (t @ u) = parses_of t @ parses_of u"
  by (induction t rule: parses_of.induct) simp_all

lemma writeAsync_written:
  "image_written w img p \<Longrightarrow>
     writeAsync w img p s =
       (Inr (), s\<lparr>trace := trace s @ [WriteAsync p], files := (files s)(p \<mapsto> the img)\<rparr>)"
  by (cases img) (simp_all add: image_written_def writeAsync_def io_bind_def log_def)

lemma writeAsync_thrown:
  "\<not> image_written w img p \<Longrightarrow>
     writeAsync w img p s = (Inl (if img = None then TypeError else WriteError), s)"
  by (cases img) (simp_all add: image_written_def writeAsync_def io_throw_def)

lemmas cacheMap_body = cacheMap_def io_bind_def io_return_def io_throw_def try_catch_def
  log_def emit_def console_error_def parser_parseMap_def query_get_def set_cachedMaps_def
  writeAsync_written writeAsync_thrown

lemma cached_record_SomeD:
  assumes "cached_record w p = Some d"
  shows "\<exists>m. parseMap w p = Some m \<and> parseMapData m = Inr d
     \<and> image_written w (sm_textureMap m) (destPath w d ''texture'')
     \<and> image_written w (sm_metalMap m) (destPath w d ''metal'')
     \<and> image_written w (sm_heightMap m) (destPath w d ''height'')
     \<and> image_written w (sm_typeMap m) (destPath w d ''type'')
     \<and> replaceOk w (fileNameWithExt d)"
proof (cases "parseMap w p")
  case None
  with assms show ?thesis by (simp add: cached_record_def)
next
  case (Some m)
  show ?thesis
  proof (cases "parseMapData m")
    case (Inl e)
    with assms Some show ?thesis by (simp add: cached_record_def)
  next
    case (Inr d')
    with assms Some show ?thesis
      by (simp add: cached_record_def split: if_splits)
  qed
qed

lemma cached_record_NoneD:
  assumes "cached_record w p = None" "parseMap w p = Some m" "parseMapData m = Inr d"
  shows "\<not> image_written w (sm_textureMap m) (destPath w d ''texture'')
     \<or> \<not> image_written w (sm_metalMap m) (destPath w d ''metal'')
     \<or> \<not> image_written w (sm_heightMap m) (destPath w d ''height'')
     \<or> \<not> image_written w (sm_typeMap m) (destPath w d ''type'')
     \<or> \<not> replaceOk w (fileNameWithExt d)"
  using assms by (simp add: cached_record_def split: if_splits)

lemma cacheMap_success:
  assumes "cached_record w p = Some d"
  shows "fst (cacheMap w p s) = Inr () \<and>
     cachedMaps (snd (cacheMap w p s)) = (cachedMaps s)(fileNameWithExt d \<mapsto> d) \<and>
     db_maps (snd (cacheMap w p s)) = (db_maps s)(fileNameWithExt d \<mapsto> d) \<and>
     trace (snd (cacheMap w p s)) = trace s @
          [ParseMap p, WriteAsync (destPath w d ''texture''), WriteAsync (destPath w d ''metal''),
           WriteAsync (destPath w d ''height''), WriteAsync (destPath w d ''type''),
           Replace (fileNameWithExt d), Emit (Map_cached d)]"
proof -
  from cached_record_SomeD [OF assms] obtain m where
    "parseMap w p = Some m" "parseMapData m = Inr d"
    "image_written w (sm_textureMap m) (destPath w d ''texture'')"
    "image_written w (sm_metalMap m) (destPath w d ''metal'')"
    "image_written w (sm_heightMap m) (destPath w d ''height'')"
    "image_written w (sm_typeMap m) (destPath w d ''type'')"
    "replaceOk w (fileNameWithExt d)"
    by blast
  then show ?thesis
    by (simp add: cacheMap_body)
qed

lemma cacheMap_failure:
  assumes "cached_record w p = None"
  shows "fst (cacheMap w p s) = Inr () \<and>
     cachedMaps (snd (cacheMap w p s)) = cachedMaps s \<and>
     db_maps (snd (cacheMap w p s)) = db_maps s \<and>
     (\<exists>t. trace (snd (cacheMap w p s)) = trace s @ ParseMap p # t
          \<and> events_of t = [] \<and> parses_of t = [])"
proof (cases "parseMap w p")
  case None
  then show ?thesis
    by (simp add: cacheMap_body)
next
  case (Some m)
  show ?thesis
  proof (cases "parseMapData m")
    case (Inl e)
    with Some show ?thesis
      by (simp add: cacheMap_body)
  next
    case (Inr d)
    let ?w1 = "image_written w (sm_textureMap m) (destPath w d ''texture'')"
    let ?w2 = "image_written w (sm_metalMap m) (destPath w d ''metal'')"
    let ?w3 = "image_written w (sm_heightMap m) (destPath w d ''height'')"
    let ?w4 = "image_written w (sm_typeMap m) (destPath w d ''type'')"
    from cached_record_NoneD [OF assms Some Inr]
    consider (texture) "\<not> ?w1" | (metal) "?w1" "\<not> ?w2" | (height) "?w1" "?w2" "\<not> ?w3"
      | (type) "?w1" "?w2" "?w3" "\<not> ?w4"
      | (row) "?w1" "?w2" "?w3" "?w4" "\<not> replaceOk w (fileNameWithExt d)"
      by blast
    then show ?thesis
    proof cases
      case texture
      with Some Inr show ?thesis by (simp add: cacheMap_body)
    next
      case metal
      with Some Inr show ?thesis by (simp add: cacheMap_body)
    next
      case height
      with Some Inr show ?thesis by (simp add: cacheMap_body)
    next
      case type
      with Some Inr show ?thesis by (simp add: cacheMap_body)
    next
      case row
      with Some Inr show ?thesis by (simp add: cacheMap_body)
    qed
  qed
qed

lemma cacheMap_effect:
  "fst (cacheMap w (mapFilePath w f) s) = Inr () \<and>
   cachedMaps (snd (cacheMap w (mapFilePath w f) s)) = store_record w f (cachedMaps s) \<and>
   db_maps (snd (cacheMap w (mapFilePath w f) s)) = store_record w f (db_maps s) \<and>
   (\<exists>t. trace (snd (cacheMap w (mapFilePath w f) s)) = trace s @ ParseMap (mapFilePath w f) # t
        \<and> events_of t = item_events w f \<and> parses_of t = [])"
proof (cases "cached_record w (mapFilePath w f)")
  case None
  with cacheMap_failure [OF None, of s] show ?thesis
    by (simp add: store_record_def item_events_def)
next
  case (Some d)
  with cacheMap_success [OF Some, of s] show ?thesis
    by (simp add: store_record_def item_events_def)
qed


section \<open>The loop and the batch\<close>

lemma cacheMaps_loop_step:
  "cacheMaps_loop w k (f # fs) n s =
     cacheMaps_loop w k fs (Suc n)
       (snd (cacheMap w (mapFilePath w f)
          (s\<lparr>trace := trace s @ [Emit (Map_cache_progress
             \<lparr>totalMapsToCache = k, currentMapsCached = n, currentMapCaching = f\<rparr>)]\<rparr>)))"
proof -
  let ?s1 = "s\<lparr>trace := trace s @ [Emit (Map_cache_progress
             \<lparr>totalMapsToCache = k, currentMapsCached = n, currentMapCaching = f\<rparr>)]\<rparr>"
  obtain r s2 where c: "cacheMap w (mapFilePath w f) ?s1 = (r, s2)"
    by (cases "cacheMap w (mapFilePath w f) ?s1")
  with cacheMap_effect [of w f ?s1] have "r = Inr ()" by simp
  with c show ?thesis
    by (simp add: io_bind_def emit_def log_def mapFilePath_def)
qed

lemma cacheMaps_loop_effect:
  "fst (cacheMaps_loop w k fs n s) = Inr () \<and>
   cachedMaps (snd (cacheMaps_loop w k fs n s)) = fold (store_record w) fs (cachedMaps s) \<and>
   db_maps (snd (cacheMaps_loop w k fs n s)) = fold (store_record w) fs (db_maps s) \<and>
   (\<exists>t. trace (snd (cacheMaps_loop w k fs n s)) = trace s @ t
        \<and> events_of t = loop_events w k fs n
        \<and> parses_of t = map (mapFilePath w) fs)"
proof (induction fs arbitrary: s n)
  case Nil
  show ?case by (simp add: io_return_def)
next
  case (Cons f fs)
  let ?e = "Emit (Map_cache_progress
             \<lparr>totalMapsToCache = k, currentMapsCached = n, currentMapCaching = f\<rparr>)"
  let ?s1 = "s\<lparr>trace := trace s @ [?e]\<rparr>"
  let ?s2 = "snd (cacheMap w (mapFilePath w f) ?s1)"
  from cacheMap_effect [of w f ?s1] obtain t where
    i: "cachedMaps ?s2 = store_record w f (cachedMaps s)"
       "db_maps ?s2 = store_record w f (db_maps s)"
       "trace ?s2 = trace s @ ?e # ParseMap (mapFilePath w f) # t"
       "events_of t = item_events w f" "parses_of t = []"
    by auto
  from Cons.IH [of "Suc n" ?s2] obtain u where
    r: "fst (cacheMaps_loop w k fs (Suc n) ?s2) = Inr ()"
       "cachedMaps (snd (cacheMaps_loop w k fs (Suc n) ?s2)) = fold (store_record w) fs (cachedMaps ?s2)"
       "db_maps (snd (cacheMaps_loop w k fs (Suc n) ?s2)) = fold (store_record w) fs (db_maps ?s2)"
       "trace (snd (cacheMaps_loop w k fs (Suc n) ?s2)) = trace ?s2 @ u"
       "events_of u = loop_events w k fs (Suc n)" "parses_of u = map (mapFilePath w) fs"
    by auto
  have "trace (snd (cacheMaps_loop w k (f # fs) n s))
          = trace s @ (?e # ParseMap (mapFilePath w f) # t @ u)"
    using i r by (simp del: cacheMaps_loop.simps add: cacheMaps_loop_step)
  moreover have "events_of (?e # ParseMap (mapFilePath w f) # t @ u) = loop_events w k (f # fs) n"
    using i r by (simp add: events_of_append)
  moreover have "parses_of (?e # ParseMap (mapFilePath w f) # t @ u) = map (mapFilePath w) (f # fs)"
    using i r by (simp add: parses_of_append)
  ultimately show ?case
    using i r by (simp only: cacheMaps_loop_step fold_Cons comp_apply) blast
qed

lemma cacheMaps_loop_progress:
  "i < length fs \<Longrightarrow>
   \<exists>pre post. trace (snd (cacheMaps_loop w k fs n s)) =
       trace s @ pre @ Emit (Map_cache_progress
          \<lparr>totalMapsToCache = k, currentMapsCached = n + i, currentMapCaching = fs ! i\<rparr>)
        # ParseMap (mapFilePath w (fs ! i)) # post
     \<and> parses_of pre = map (mapFilePath w) (take i fs)
     \<and> (i = 0 \<longrightarrow> pre = [])"
proof (induction fs arbitrary: s n i)
  case Nil
  then show ?case by simp
next
  case (Cons f fs)
  let ?e = "Emit (Map_cache_progress
             \<lparr>totalMapsToCache = k, currentMapsCached = n, currentMapCaching = f\<rparr>)"
  let ?s1 = "s\<lparr>trace := trace s @ [?e]\<rparr>"
  let ?s2 = "snd (cacheMap w (mapFilePath w f) ?s1)"
  from cacheMap_effect [of w f ?s1] obtain t where
    i: "trace ?s2 = trace s @ ?e # ParseMap (mapFilePath w f) # t" "parses_of t = []"
    by auto
  show ?case
  proof (cases i)
    case 0
    from cacheMaps_loop_effect [of w k fs "Suc n" ?s2] obtain u where
      "trace (snd (cacheMaps_loop w k fs (Suc n) ?s2)) = trace ?s2 @ u"
      by blast
    with i 0 have "trace (snd (cacheMaps_loop w k (f # fs) n s)) =
       trace s @ [] @ Emit (Map_cache_progress
          \<lparr>totalMapsToCache = k, currentMapsCached = n + i, currentMapCaching = (f # fs) ! i\<rparr>)
        # ParseMap (mapFilePath w ((f # fs) ! i)) # (t @ u)"
      by (simp del: cacheMaps_loop.simps add: cacheMaps_loop_step)
    with 0 show ?thesis by (metis parses_of.simps(1) take_0 list.simps(8))
  next
    case (Suc j)
    with Cons.prems have "j < length fs" by simp
    from Cons.IH [OF this, of "Suc n" ?s2] obtain pre post where
      r: "trace (snd (cacheMaps_loop w k fs (Suc n) ?s2)) =
           trace ?s2 @ pre @ Emit (Map_cache_progress
              \<lparr>totalMapsToCache = k, currentMapsCached = Suc n + j, currentMapCaching = fs ! j\<rparr>)
            # ParseMap (mapFilePath w (fs ! j)) # post"
         "parses_of pre = map (mapFilePath w) (take j fs)"
      by blast
    let ?pre = "?e # ParseMap (mapFilePath w f) # t @ pre"
    have "trace (snd (cacheMaps_loop w k (f # fs) n s)) =
       trace s @ ?pre @ Emit (Map_cache_progress
          \<lparr>totalMapsToCache = k, currentMapsCached = n + i, currentMapCaching = (f # fs) ! i\<rparr>)
        # ParseMap (mapFilePath w ((f # fs) ! i)) # post"
      using i r Suc by (simp del: cacheMaps_loop.simps add: cacheMaps_loop_step)
    moreover have "parses_of ?pre = map (mapFilePath w) (take i (f # fs))"
      using i r Suc by (simp add: parses_of_append)
    ultimately show ?thesis using Suc by blast
  qed
qed

lemma cacheMaps_unfold:
  "readdir w (getMapsPath w) = Some names \<Longrightarrow>
     cacheMaps w b s =
       cacheMaps_loop w (length (mapsToCache b (cachedMaps s) names))
         (mapsToCache b (cachedMaps s) names) 0 s"
  by (simp add: cacheMaps_def fs_readdir_def io_bind_def io_return_def Let_def)

lemma new_effects_append: "trace s' = trace s @ t \<Longrightarrow> new_effects s s' = t"
  by (simp add: new_effects_def)

section \<open>Keys written by a batch\<close>

lemma parseMapData_key: "parseMapData m = Inr d \<Longrightarrow> fileNameWithExt d = sm_fileNameWithExt m"
  by (auto simp: parseMapData_def split: sum.splits option.splits)

lemma cached_record_key:
  assumes "cached_record w (mapFilePath w f) = Some d" "reports_own_name w f"
  shows "fileNameWithExt d = f"
proof -
  from cached_record_SomeD [OF assms(1)] obtain m where
    "parseMap w (mapFilePath w f) = Some m" "parseMapData m = Inr d"
    by blast
  with assms(2) show ?thesis
    by (simp add: reports_own_name_def parseMapData_key)
qed

lemma store_record_at:
  assumes "reports_own_name w f"
  shows "store_record w f m k =
     (if k = f then (case cached_record w (mapFilePath w f) of None \<Rightarrow> m k | Some d \<Rightarrow> Some d)
      else m k)"
proof (cases "cached_record w (mapFilePath w f)")
  case None
  then show ?thesis by (simp add: store_record_def)
next
  case (Some d)
  with cached_record_key [OF Some assms] show ?thesis
    by (auto simp: store_record_def)
qed

lemma fold_store_record:
  assumes "\<forall>f\<in>set fs. reports_own_name w f"
  shows "fold (store_record w) fs m k =
     (if k \<in> set fs then (case cached_record w (mapFilePath w k) of None \<Rightarrow> m k | Some d \<Rightarrow> Some d)
      else m k)"
  using assms
proof (induction fs arbitrary: m)
  case Nil
  show ?case by simp
next
  case (Cons f fs)
  then have own: "reports_own_name w f" and rest: "\<forall>g\<in>set fs. reports_own_name w g"
    by simp_all
  have "fold (store_record w) (f # fs) m k = fold (store_record w) fs (store_record w f m) k"
    by simp
  also have "\<dots> = (if k \<in> set fs
      then (case cached_record w (mapFilePath w k) of
              None \<Rightarrow> store_record w f m k | Some d \<Rightarrow> Some d)
      else store_record w f m k)"
    by (rule Cons.IH [OF rest])
  finally show ?case
    by (simp add: store_record_at [OF own] split: option.splits)
qed


lemma cacheMaps_effect:
  assumes "readdir w (getMapsPath w) = Some names"
  shows "fst (cacheMaps w b s) = Inr ()"
    and "cachedMaps (snd (cacheMaps w b s)) =
           fold (store_record w) (mapsToCache b (cachedMaps s) names) (cachedMaps s)"
    and "db_maps (snd (cacheMaps w b s)) =
           fold (store_record w) (mapsToCache b (cachedMaps s) names) (db_maps s)"
    and "events_of (new_effects s (snd (cacheMaps w b s))) =
           loop_events w (length (mapsToCache b (cachedMaps s) names))
             (mapsToCache b (cachedMaps s) names) 0"
    and "parses_of (new_effects s (snd (cacheMaps w b s))) =
           map (mapFilePath w) (mapsToCache b (cachedMaps s) names)"
proof -
  let ?ws = "mapsToCache b (cachedMaps s) names"
  from cacheMaps_loop_effect [of w "length ?ws" ?ws 0 s] obtain t where
    "fst (cacheMaps_loop w (length ?ws) ?ws 0 s) = Inr ()"
    "cachedMaps (snd (cacheMaps_loop w (length ?ws) ?ws 0 s)) = fold (store_record w) ?ws (cachedMaps s)"
    "db_maps (snd (cacheMaps_loop w (length ?ws) ?ws 0 s)) = fold (store_record w) ?ws (db_maps s)"
    "trace (snd (cacheMaps_loop w (length ?ws) ?ws 0 s)) = trace s @ t"
    "events_of t = loop_events w (length ?ws) ?ws 0"
    "parses_of t = map (mapFilePath w) ?ws"
    by blast
  then show "fst (cacheMaps w b s) = Inr ()"
    and "cachedMaps (snd (cacheMaps w b s)) = fold (store_record w) ?ws (cachedMaps s)"
    and "db_maps (snd (cacheMaps w b s)) = fold (store_record w) ?ws (db_maps s)"
    and "events_of (new_effects s (snd (cacheMaps w b s))) = loop_events w (length ?ws) ?ws 0"
    and "parses_of (new_effects s (snd (cacheMaps w b s))) = map (mapFilePath w) ?ws"
    by (simp_all add: cacheMaps_unfold [OF assms] new_effects_def)
qed

lemma mapsToCache_set:
  "f \<in> set (mapsToCache b cached names) \<longleftrightarrow>
     f \<in> set names \<and> (b \<or> cached f = None) \<and> recognized f"
  by (auto simp: mapsToCache_def)

lemma filter_single:
  assumes "distinct xs" "x \<in> set xs" "P x" "\<forall>y\<in>set xs. y \<noteq> x \<longrightarrow> \<not> P y"
  shows "filter P xs = [x]"
  using assms
proof (induction xs)
  case Nil
  then show ?case by simp
next
  case (Cons a xs)
  show ?case
  proof (cases "a = x")
    case True
    with Cons.prems have "\<forall>y\<in>set xs. \<not> P y" by auto
    then have "filter P xs = []" by (simp add: filter_empty_conv)
    with True Cons.prems show ?thesis by simp
  next
    case False
    with Cons show ?thesis by auto
  qed
qed

section \<open>The example world\<close>

lemma example_mapFilePath:
  "mapFilePath (example_world names corrupt) f = ''data/maps/'' @ f"
  by (simp add: mapFilePath_def getMapsPath_def path_join_def example_world_def)

lemma example_readdir:
  "readdir (example_world names corrupt) (getMapsPath (example_world names corrupt)) = Some names"
  by (simp add: getMapsPath_def path_join_def example_world_def)

lemma example_parseMapData: "\<exists>d. parseMapData (example_map f) = Inr d"
  by (simp add: parseMapData_def modern_startPositions_def example_map_def example_mapInfo_def
      example_smf_def)

lemma example_cached:
  assumes "f \<notin> set corrupt"
  shows "\<exists>d. cached_record (example_world names corrupt)
            (mapFilePath (example_world names corrupt) f) = Some d
         \<and> parseMapData (example_map f) = Inr d"
proof -
  let ?w = "example_world names corrupt"
  from example_parseMapData obtain d where d: "parseMapData (example_map f) = Inr d" by blast
  have p: "parseMap ?w (mapFilePath ?w f) = Some (example_map f)"
    unfolding example_mapFilePath using assms by (simp add: example_world_def)
  have i: "sm_textureMap (example_map f) \<noteq> None" "sm_metalMap (example_map f) \<noteq> None"
    "sm_heightMap (example_map f) \<noteq> None" "sm_typeMap (example_map f) \<noteq> None"
    by (simp_all add: example_map_def)
  have o: "writeAsyncOk ?w q" "replaceOk ?w k" for q k
    by (simp_all add: example_world_def)
  have "cached_record ?w (mapFilePath ?w f) = Some d"
    by (simp add: cached_record_def p d i o image_written_def)
  with d show ?thesis by simp
qed

lemma example_corrupt:
  assumes "f \<in> set corrupt"
  shows "cached_record (example_world names corrupt)
           (mapFilePath (example_world names corrupt) f) = None"
proof -
  let ?w = "example_world names corrupt"
  have "parseMap ?w (mapFilePath ?w f) = None"
    unfolding example_mapFilePath using assms by (simp add: example_world_def)
  then show ?thesis
    by (simp add: cached_record_def)
qed

lemma example_own_name: "reports_own_name (example_world names corrupt) f"
proof -
  let ?w = "example_world names corrupt"
  have "parseMap ?w (mapFilePath ?w f) = None
      \<or> parseMap ?w (mapFilePath ?w f) = Some (example_map f)"
    unfolding example_mapFilePath by (simp add: example_world_def)
  moreover have "sm_fileNameWithExt (example_map f) = f"
    by (simp add: example_map_def)
  ultimately show ?thesis
    by (auto simp: reports_own_name_def)
qed


section \<open>Index and events of a batch\<close>

lemma cacheMaps_index:
  assumes "readdir w (getMapsPath w) = Some names"
    and "\<forall>f\<in>set (mapsToCache b (cachedMaps s) names). reports_own_name w f"
  shows "cachedMaps (snd (cacheMaps w b s)) k =
      (if k \<in> set (mapsToCache b (cachedMaps s) names)
       then (case cached_record w (mapFilePath w k) of None \<Rightarrow> cachedMaps s k | Some d \<Rightarrow> Some d)
       else cachedMaps s k)"
    and "db_maps (snd (cacheMaps w b s)) k =
      (if k \<in> set (mapsToCache b (cachedMaps s) names)
       then (case cached_record w (mapFilePath w k) of None \<Rightarrow> db_maps s k | Some d \<Rightarrow> Some d)
       else db_maps s k)"
  by (simp_all only: cacheMaps_effect(2,3) [OF assms(1)] fold_store_record [OF assms(2)])

lemma item_events_cases:
  "(cached_record w (mapFilePath w f) = None \<and> item_events w f = [])
   \<or> (\<exists>d. cached_record w (mapFilePath w f) = Some d \<and> item_events w f = [Map_cached d])"
  by (cases "cached_record w (mapFilePath w f)") (simp_all add: item_events_def)

lemma loop_events_total:
  "Map_cache_progress pr \<in> set (loop_events w k fs n) \<Longrightarrow> totalMapsToCache pr = k"
proof (induction fs arbitrary: n)
  case Nil
  then show ?case by simp
next
  case (Cons f fs)
  with item_events_cases [of w f] show ?case by auto
qed

lemma loop_events_started:
  assumes "i < length (loop_events w k fs n)" "loop_events w k fs n ! i = Map_cached d"
  shows "0 < i \<and> (\<exists>pr. loop_events w k fs n ! (i - 1) = Map_cache_progress pr
            \<and> cached_record w (mapFilePath w (currentMapCaching pr)) = Some d)"
  using assms
proof (induction fs arbitrary: n i)
  case Nil
  then show ?case by simp
next
  case (Cons f fs)
  let ?p = "Map_cache_progress
      \<lparr>totalMapsToCache = k, currentMapsCached = n, currentMapCaching = f\<rparr>"
  let ?rest = "loop_events w k fs (Suc n)"
  from item_events_cases [of w f] show ?case
  proof
    assume a: "cached_record w (mapFilePath w f) = None \<and> item_events w f = []"
    then have l: "loop_events w k (f # fs) n = ?p # ?rest" by simp
    show ?thesis
    proof (cases i)
      case 0
      with Cons.prems l show ?thesis by simp
    next
      case (Suc j)
      with Cons.prems l have "j < length ?rest" "?rest ! j = Map_cached d" by simp_all
      from Cons.IH [OF this] obtain pr where
        "0 < j" "?rest ! (j - 1) = Map_cache_progress pr"
        "cached_record w (mapFilePath w (currentMapCaching pr)) = Some d"
        by blast
      with Suc l show ?thesis by (simp add: nth_Cons')
    qed
  next
    assume "\<exists>d0. cached_record w (mapFilePath w f) = Some d0 \<and> item_events w f = [Map_cached d0]"
    then obtain d0 where a: "cached_record w (mapFilePath w f) = Some d0"
      and l: "loop_events w k (f # fs) n = ?p # Map_cached d0 # ?rest"
      by auto
    show ?thesis
    proof (cases i)
      case 0
      with Cons.prems l show ?thesis by simp
    next
      case (Suc j)
      show ?thesis
      proof (cases j)
        case 0
        with Suc Cons.prems l a show ?thesis by simp
      next
        case (Suc j')
        with \<open>i = Suc j\<close> Cons.prems l have "j' < length ?rest" "?rest ! j' = Map_cached d"
          by simp_all
        from Cons.IH [OF this] obtain pr where
          "0 < j'" "?rest ! (j' - 1) = Map_cache_progress pr"
          "cached_record w (mapFilePath w (currentMapCaching pr)) = Some d"
          by blast
        with Suc \<open>i = Suc j\<close> l show ?thesis by (simp add: nth_Cons')
      qed
    qed
  qed
qed

lemma cacheMaps_progress:
  assumes "readdir w (getMapsPath w) = Some names"
    and "i < length (mapsToCache b (cachedMaps s) names)"
  shows "\<exists>pre post. new_effects s (snd (cacheMaps w b s)) =
       pre @ Emit (Map_cache_progress
          \<lparr>totalMapsToCache = length (mapsToCache b (cachedMaps s) names),
           currentMapsCached = i,
           currentMapCaching = mapsToCache b (cachedMaps s) names ! i\<rparr>)
        # ParseMap (mapFilePath w (mapsToCache b (cachedMaps s) names ! i)) # post
     \<and> parses_of pre = map (mapFilePath w) (take i (mapsToCache b (cachedMaps s) names))
     \<and> (i = 0 \<longrightarrow> pre = [])"
proof -
  let ?ws = "mapsToCache b (cachedMaps s) names"
  from cacheMaps_loop_progress [OF assms(2), of w "length ?ws" 0 s] obtain pre post where
    "trace (snd (cacheMaps_loop w (length ?ws) ?ws 0 s)) =
       trace s @ pre @ Emit (Map_cache_progress
          \<lparr>totalMapsToCache = length ?ws, currentMapsCached = i, currentMapCaching = ?ws ! i\<rparr>)
        # ParseMap (mapFilePath w (?ws ! i)) # post"
    "parses_of pre = map (mapFilePath w) (take i ?ws)" "i = 0 \<longrightarrow> pre = []"
    by auto
  moreover from this(1) have "new_effects s (snd (cacheMaps w b s)) =
       pre @ Emit (Map_cache_progress
          \<lparr>totalMapsToCache = length ?ws, currentMapsCached = i, currentMapCaching = ?ws ! i\<rparr>)
        # ParseMap (mapFilePath w (?ws ! i)) # post"
    by (simp add: cacheMaps_unfold [OF assms(1)] new_effects_def)
  ultimately show ?thesis
    by blast
qed

lemma stale_state_index:
  "cachedMaps (stale_state f) k = (if k = f then Some (stale_record f) else None)"
  by (simp add: stale_state_def)

lemma recognized_examples:
  "recognized ''a.sd7''" "recognized ''b.sd7''" "recognized ''c.sdz''" "recognized ''new.sdz''"
  "recognized ''bad.sd7''" "\<not> recognized ''notes.txt''"
  by (simp_all add: recognized_def endsWith_def)


section \<open>Keys and the exact event sequence\<close>

lemma dom_fold_store_record:
  "dom (fold (store_record w) fs m) =
     dom m \<union> {fileNameWithExt d |f d. f \<in> set fs \<and> cached_record w (mapFilePath w f) = Some d}"
proof (induction fs arbitrary: m)
  case Nil
  show ?case by simp
next
  case (Cons g fs)
  have "dom (store_record w g m) =
      dom m \<union> {fileNameWithExt d |d. cached_record w (mapFilePath w g) = Some d}"
    by (cases "cached_record w (mapFilePath w g)") (auto simp: store_record_def)
  with Cons.IH [of "store_record w g m"] show ?case
    by auto
qed

lemma fold_store_record_twice:
  assumes "set fs' \<subseteq> set fs"
  shows "dom (fold (store_record w) fs' (fold (store_record w) fs m))
           = dom (fold (store_record w) fs m)"
  using assms by (auto simp: dom_fold_store_record)

lemma loop_events_explicit:
  "loop_events w k fs n =
     concat (map (\<lambda>i. Map_cache_progress
                \<lparr>totalMapsToCache = k, currentMapsCached = n + i, currentMapCaching = fs ! i\<rparr>
              # (case cached_record w (mapFilePath w (fs ! i)) of
                   None \<Rightarrow> [] | Some d \<Rightarrow> [Map_cached d]))
        [0..<length fs])"
proof (induction fs arbitrary: n)
  case Nil
  show ?case by simp
next
  case (Cons f fs)
  have "[0..<length (f # fs)] = 0 # map Suc [0..<length fs]"
    by (simp add: upt_conv_Cons map_Suc_upt del: upt_Suc)
  then show ?case
    by (simp add: Cons.IH [of "Suc n"] item_events_def comp_def del: upt_Suc)
qed

lemma loop_events_progress:
  "[pr. Map_cache_progress pr \<leftarrow> loop_events w k fs n] =
     map (\<lambda>i. \<lparr>totalMapsToCache = k, currentMapsCached = n + i, currentMapCaching = fs ! i\<rparr>)
       [0..<length fs]"
proof (induction fs arbitrary: n)
  case Nil
  show ?case by simp
next
  case (Cons f fs)
  have u: "[0..<Suc (length fs)] = 0 # map Suc [0..<length fs]"
    by (simp add: upt_conv_Cons map_Suc_upt del: upt_Suc)
  from item_events_cases [of w f] show ?case
    by (auto simp: u Cons.IH [of "Suc n"] comp_def simp del: upt_Suc)
qed


section \<open>Metadata resolution\<close>



text \<open>
  C8. The width and the height of the record are twice the width and height units of the
  \<open>smf\<close> part and depend on nothing else of the parsed archive: 4 and 3 units give a
  width of 8 and a height of 6.
\<close>

theorem parseMapData_dimensions:
  assumes "parseMapData m = Inr d"
  shows "(\<exists>f. sm_smf m = Some f \<and> width d = 2 * mapWidthUnits f \<and> height d = 2 * mapHeightUnits f)
    \<and> (\<forall>m' d'. parseMapData m' = Inr d' \<and> sm_smf m' = sm_smf m
          \<longrightarrow> width d' = width d \<and> height d' = height d)"
  using assms by (auto simp: parseMapData_def split: sum.splits option.splits)

theorem parseMapData_dimensions_witness:
  "sm_smf (example_map ''a.sd7'') = Some \<lparr>mapWidthUnits = 4, mapHeightUnits = 3\<rparr>
   \<and> map_sum id width (parseMapData (example_map ''a.sd7'')) = Inr 8
   \<and> map_sum id height (parseMapData (example_map ''a.sd7'')) = Inr 6"
proof -
  obtain d where d: "parseMapData (example_map ''a.sd7'') = Inr d"
    by (simp add: parseMapData_def modern_startPositions_def example_map_def example_mapInfo_def
        example_smf_def)
  have f: "sm_smf (example_map ''a.sd7'') = Some \<lparr>mapWidthUnits = 4, mapHeightUnits = 3\<rparr>"
    by (simp add: example_map_def example_smf_def)
  with parseMapData_dimensions [OF d] have "width d = 8 \<and> height d = 6"
    by auto
  with d f show ?thesis by simp
qed

text \<open>
  C9, as the claim states it, fails: a modern description that is present but empty is
  not used, the legacy description is.
\<close>

theorem description_present_but_empty:
  "Option.bind (sm_mapInfo (example_map ''a.sd7'')) mi_description = Some []
   \<and> Option.bind (sm_smd (example_map ''a.sd7'')) smd_description = Some ''legacy text''
   \<and> map_sum id description (parseMapData (example_map ''a.sd7'')) = Inr (Some ''legacy text'')"
  by (simp add: parseMapData_def modern_startPositions_def example_map_def example_mapInfo_def
      example_smf_def example_smd_def logical_or_def truthy_def)

text \<open>
  C9, amended. The description is the modern one when that is present and not empty;
  otherwise (absent, or the empty string) it is the legacy one, which may itself be
  absent, and then the record has no description.
\<close>

theorem parseMapData_description:
  assumes "parseMapData m = Inr d"
  shows "(\<forall>v. Option.bind (sm_mapInfo m) mi_description = Some v \<and> v \<noteq> []
            \<longrightarrow> description d = Some v)
    \<and> (Option.bind (sm_mapInfo m) mi_description = None
        \<or> Option.bind (sm_mapInfo m) mi_description = Some []
            \<longrightarrow> description d = Option.bind (sm_smd m) smd_description)"
  using assms
  by (auto simp: parseMapData_def logical_or_def truthy_def split: sum.splits option.splits)

theorem parseMapData_description_witness:
  "map_sum id description
     (parseMapData ((example_map ''a.sd7'')\<lparr>sm_mapInfo :=
        Some (example_mapInfo\<lparr>mi_description := Some ''modern text''\<rparr>)\<rparr>))
     = Inr (Some ''modern text'')
   \<and> map_sum id description (parseMapData ((example_map ''a.sd7'')\<lparr>sm_mapInfo := None\<rparr>))
     = Inr (Some ''legacy text'')"
proof -
  let ?m1 = "(example_map ''a.sd7'')\<lparr>sm_mapInfo :=
        Some (example_mapInfo\<lparr>mi_description := Some ''modern text''\<rparr>)\<rparr>"
  let ?m2 = "(example_map ''a.sd7'')\<lparr>sm_mapInfo := None\<rparr>"
  obtain d1 where d1: "parseMapData ?m1 = Inr d1"
    by (simp add: parseMapData_def modern_startPositions_def example_map_def example_mapInfo_def
        example_smf_def)
  obtain d2 where d2: "parseMapData ?m2 = Inr d2"
    by (simp add: parseMapData_def modern_startPositions_def example_map_def example_smf_def)
  have "Option.bind (sm_mapInfo ?m1) mi_description = Some ''modern text''"
    by (simp add: example_map_def)
  with parseMapData_description [OF d1] have "description d1 = Some ''modern text''"
    by simp
  moreover have "Option.bind (sm_mapInfo ?m2) mi_description = None"
    by simp
  with parseMapData_description [OF d2]
  have "description d2 = Option.bind (sm_smd ?m2) smd_description"
    by simp
  then have "description d2 = Some ''legacy text''"
    by (simp add: example_map_def example_smd_def)
  ultimately show ?thesis using d1 d2 by simp
qed


section \<open>Batches\<close>

text \<open>
  C1, as the claim states it, fails: an archive that the parser rejects is not in the
  index after the first incremental batch, so the second batch calls the parser on it
  again.
\<close>

theorem second_batch_parses_corrupt_again:
  "parses_of (new_effects
      (snd (cacheMaps (example_world [''bad.sd7''] [''bad.sd7'']) False empty_state))
      (snd (cacheMaps (example_world [''bad.sd7''] [''bad.sd7'']) False
         (snd (cacheMaps (example_world [''bad.sd7''] [''bad.sd7'']) False empty_state)))))
   = [''data/maps/bad.sd7'']"
  by (simp add: cacheMaps_def fs_readdir_def mapsToCache_def recognized_def endsWith_def
      cacheMap_body getMapsPath_def path_join_def example_world_def empty_state_def
      new_effects_def)

text \<open>
  C1, amended. A second incremental batch over the same directory returns and leaves
  the set of keys of the index (and of the table) as the first batch left it. It calls
  the parser on exactly the recognized files that are still no key of the index after
  the first batch, so it does no extraction work exactly when every recognized file is
  a key by then. That is the case when every recognized file that was not yet in the
  index is cached by the first batch (no step of it fails, and the parser reports the
  file's own name): then the second batch leaves the whole state as it is.
\<close>

theorem second_batch_idempotent:
  assumes "readdir w (getMapsPath w) = Some names"
  shows "fst (cacheMaps w False (snd (cacheMaps w False s))) = Inr ()
    \<and> dom (cachedMaps (snd (cacheMaps w False (snd (cacheMaps w False s)))))
        = dom (cachedMaps (snd (cacheMaps w False s)))
    \<and> dom (db_maps (snd (cacheMaps w False (snd (cacheMaps w False s)))))
        = dom (db_maps (snd (cacheMaps w False s)))
    \<and> parses_of (new_effects (snd (cacheMaps w False s))
          (snd (cacheMaps w False (snd (cacheMaps w False s)))))
        = map (mapFilePath w) (mapsToCache False (cachedMaps (snd (cacheMaps w False s))) names)
    \<and> (parses_of (new_effects (snd (cacheMaps w False s))
          (snd (cacheMaps w False (snd (cacheMaps w False s))))) = []
        \<longleftrightarrow> (\<forall>f\<in>set names. recognized f \<longrightarrow> cachedMaps (snd (cacheMaps w False s)) f \<noteq> None))
    \<and> ((\<forall>f\<in>set names. recognized f \<and> cachedMaps s f = None
           \<longrightarrow> cached_record w (mapFilePath w f) \<noteq> None \<and> reports_own_name w f)
        \<longrightarrow> cacheMaps w False (snd (cacheMaps w False s)) = (Inr (), snd (cacheMaps w False s))
          \<and> parses_of (new_effects (snd (cacheMaps w False s))
               (snd (cacheMaps w False (snd (cacheMaps w False s))))) = [])"
proof -
  let ?ws = "mapsToCache False (cachedMaps s) names"
  let ?s1 = "snd (cacheMaps w False s)"
  let ?ws' = "mapsToCache False (cachedMaps ?s1) names"
  let ?s2 = "snd (cacheMaps w False ?s1)"
  have m1: "cachedMaps ?s1 = fold (store_record w) ?ws (cachedMaps s)"
    and d1: "db_maps ?s1 = fold (store_record w) ?ws (db_maps s)"
    by (rule cacheMaps_effect(2,3) [OF assms])+
  have m2: "cachedMaps ?s2 = fold (store_record w) ?ws' (cachedMaps ?s1)"
    and d2: "db_maps ?s2 = fold (store_record w) ?ws' (db_maps ?s1)"
    by (rule cacheMaps_effect(2,3) [OF assms])+
  have sub: "set ?ws' \<subseteq> set ?ws"
  proof
    fix f
    assume "f \<in> set ?ws'"
    then have f: "f \<in> set names" "recognized f" "cachedMaps ?s1 f = None"
      by (simp_all add: mapsToCache_set)
    from f(3) have "f \<notin> dom (fold (store_record w) ?ws (cachedMaps s))"
      by (simp add: m1 domIff)
    then have "f \<notin> dom (cachedMaps s)"
      by (simp add: dom_fold_store_record)
    with f show "f \<in> set ?ws"
      by (simp add: mapsToCache_set domIff)
  qed
  have "dom (fold (store_record w) ?ws' (fold (store_record w) ?ws (cachedMaps s)))
      = dom (fold (store_record w) ?ws (cachedMaps s))"
    by (rule fold_store_record_twice [OF sub])
  then have keys: "dom (cachedMaps ?s2) = dom (cachedMaps ?s1)"
    by (simp add: m2 m1)
  have "dom (fold (store_record w) ?ws' (fold (store_record w) ?ws (db_maps s)))
      = dom (fold (store_record w) ?ws (db_maps s))"
    by (rule fold_store_record_twice [OF sub])
  then have rows: "dom (db_maps ?s2) = dom (db_maps ?s1)"
    by (simp add: d2 d1)
  have ret: "fst (cacheMaps w False ?s1) = Inr ()"
    by (rule cacheMaps_effect(1) [OF assms])
  have par: "parses_of (new_effects ?s1 ?s2) = map (mapFilePath w) ?ws'"
    by (rule cacheMaps_effect(5) [OF assms])
  have none: "parses_of (new_effects ?s1 ?s2) = []
      \<longleftrightarrow> (\<forall>f\<in>set names. recognized f \<longrightarrow> cachedMaps ?s1 f \<noteq> None)"
    unfolding par by (auto simp: mapsToCache_def filter_empty_conv)
  have all: "cacheMaps w False ?s1 = (Inr (), ?s1) \<and> parses_of (new_effects ?s1 ?s2) = []"
    if a: "\<forall>f\<in>set names. recognized f \<and> cachedMaps s f = None
           \<longrightarrow> cached_record w (mapFilePath w f) \<noteq> None \<and> reports_own_name w f"
  proof -
    have own: "\<forall>f\<in>set ?ws. reports_own_name w f"
      using a by (simp add: mapsToCache_set)
    have idx: "cachedMaps ?s1 k =
        (if k \<in> set ?ws
         then (case cached_record w (mapFilePath w k) of None \<Rightarrow> cachedMaps s k | Some d \<Rightarrow> Some d)
         else cachedMaps s k)" for k
      by (rule cacheMaps_index(1) [OF assms own])
    have "cachedMaps ?s1 f \<noteq> None" if "f \<in> set names" "recognized f" for f
    proof (cases "cachedMaps s f")
      case None
      with that have "f \<in> set ?ws" by (simp add: mapsToCache_set)
      moreover from None that a have "cached_record w (mapFilePath w f) \<noteq> None" by blast
      ultimately show ?thesis by (auto simp: idx)
    next
      case (Some d)
      then have "f \<notin> set ?ws" by (simp add: mapsToCache_set)
      with Some show ?thesis by (simp add: idx)
    qed
    then have "?ws' = []"
      by (auto simp: mapsToCache_def filter_empty_conv)
    then have "cacheMaps w False ?s1 = (Inr (), ?s1)"
      by (simp add: cacheMaps_unfold [OF assms] io_return_def)
    then show ?thesis
      by (simp add: new_effects_def)
  qed
  from ret keys rows par none all show ?thesis
    by blast
qed

theorem second_batch_idempotent_witness:
  "cacheMaps (example_world [''a.sd7'', ''notes.txt'', ''b.sdz''] []) False
     (snd (cacheMaps (example_world [''a.sd7'', ''notes.txt'', ''b.sdz''] []) False empty_state))
   = (Inr (), snd (cacheMaps (example_world [''a.sd7'', ''notes.txt'', ''b.sdz''] []) False empty_state))
   \<and> dom (cachedMaps (snd (cacheMaps (example_world [''bad.sd7'', ''c.sdz''] [''bad.sd7'']) False
        (snd (cacheMaps (example_world [''bad.sd7'', ''c.sdz''] [''bad.sd7'']) False empty_state)))))
     = dom (cachedMaps
        (snd (cacheMaps (example_world [''bad.sd7'', ''c.sdz''] [''bad.sd7'']) False empty_state)))"
proof -
  let ?w = "example_world [''a.sd7'', ''notes.txt'', ''b.sdz''] []"
  let ?v = "example_world [''bad.sd7'', ''c.sdz''] [''bad.sd7'']"
  have "\<forall>f\<in>set [''a.sd7'', ''notes.txt'', ''b.sdz'']. recognized f \<and> cachedMaps empty_state f = None
           \<longrightarrow> cached_record ?w (mapFilePath ?w f) \<noteq> None \<and> reports_own_name ?w f"
    using example_cached [of _ "[]"] by (fastforce simp: example_own_name)
  with second_batch_idempotent [OF example_readdir, of "[''a.sd7'', ''notes.txt'', ''b.sdz'']" "[]"
      empty_state]
  have "cacheMaps ?w False (snd (cacheMaps ?w False empty_state))
      = (Inr (), snd (cacheMaps ?w False empty_state))"
    by blast
  moreover from second_batch_idempotent [OF example_readdir, of "[''bad.sd7'', ''c.sdz'']"
      "[''bad.sd7'']" empty_state]
  have "dom (cachedMaps (snd (cacheMaps ?v False (snd (cacheMaps ?v False empty_state)))))
     = dom (cachedMaps (snd (cacheMaps ?v False empty_state)))"
    by blast
  ultimately show ?thesis by blast
qed


text \<open>
  C2. When the listing has no duplicate, every recognized file but one is a key of the
  index, and the parser reports the new file under its own name, an incremental batch
  has exactly that one file as its work set, calls the parser exactly once, on it, and
  leaves the record of every other key as it was, in the index and in the table.
\<close>

theorem one_new_archive:
  assumes "readdir w (getMapsPath w) = Some names"
    and "distinct names"
    and "new \<in> set names" "recognized new" "cachedMaps s new = None"
    and "\<forall>f\<in>set names. recognized f \<and> f \<noteq> new \<longrightarrow> cachedMaps s f \<noteq> None"
    and "reports_own_name w new"
  shows "mapsToCache False (cachedMaps s) names = [new]
    \<and> fst (cacheMaps w False s) = Inr ()
    \<and> parses_of (new_effects s (snd (cacheMaps w False s))) = [mapFilePath w new]
    \<and> (\<forall>k. k \<noteq> new \<longrightarrow> cachedMaps (snd (cacheMaps w False s)) k = cachedMaps s k
                      \<and> db_maps (snd (cacheMaps w False s)) k = db_maps s k)"
proof -
  have ws: "mapsToCache False (cachedMaps s) names = [new]"
    unfolding mapsToCache_def
    by (rule filter_single) (use assms in auto)
  have own: "\<forall>f\<in>set [new]. reports_own_name w f"
    using assms(7) by simp
  have "cachedMaps (snd (cacheMaps w False s)) k = cachedMaps s k" if "k \<noteq> new" for k
    using that by (simp only: cacheMaps_effect(2) [OF assms(1)] ws fold_store_record [OF own]) simp
  moreover have "db_maps (snd (cacheMaps w False s)) k = db_maps s k" if "k \<noteq> new" for k
    using that by (simp only: cacheMaps_effect(3) [OF assms(1)] ws fold_store_record [OF own]) simp
  ultimately show ?thesis
    using ws cacheMaps_effect(1,5) [OF assms(1), where b = False and s = s] by simp
qed


theorem one_new_archive_witness:
  "mapsToCache False (cachedMaps (stale_state ''a.sd7'')) [''a.sd7'', ''notes.txt'', ''new.sdz'']
     = [''new.sdz'']
   \<and> cachedMaps (snd (cacheMaps (example_world [''a.sd7'', ''notes.txt'', ''new.sdz''] []) False
        (stale_state ''a.sd7''))) ''a.sd7'' = Some (stale_record ''a.sd7'')"
proof -
  let ?names = "[''a.sd7'', ''notes.txt'', ''new.sdz'']"
  let ?w = "example_world ?names []"
  have "distinct ?names" "''new.sdz'' \<in> set ?names" "recognized ''new.sdz''"
    "cachedMaps (stale_state ''a.sd7'') ''new.sdz'' = None"
    "\<forall>f\<in>set ?names. recognized f \<and> f \<noteq> ''new.sdz'' \<longrightarrow> cachedMaps (stale_state ''a.sd7'') f \<noteq> None"
    by (simp_all add: stale_state_index recognized_examples)
  from one_new_archive [OF example_readdir this example_own_name] show ?thesis
    by (simp add: stale_state_index)
qed

text \<open>
  C3. An item of which some step throws (the parser, \<open>parseMapData\<close>, one of the four
  image writes, the row replacement) leaves the index and the table as they were, and
  \<open>cacheMap\<close> returns. A batch whose directory can be listed returns, after calling the
  parser on every item of its work set in order, failed items or not. With a work set
  of three archives of which the second fails and was not in the index, the index ends
  with the records of the first and the third and none for the second.
\<close>

theorem failure_isolation:
  "(cached_record w p = None \<longrightarrow>
      fst (cacheMap w p s) = Inr ()
      \<and> cachedMaps (snd (cacheMap w p s)) = cachedMaps s
      \<and> db_maps (snd (cacheMap w p s)) = db_maps s)
   \<and> (readdir w (getMapsPath w) = Some names \<longrightarrow>
      fst (cacheMaps w b s) = Inr ()
      \<and> parses_of (new_effects s (snd (cacheMaps w b s)))
          = map (mapFilePath w) (mapsToCache b (cachedMaps s) names))
   \<and> (readdir w (getMapsPath w) = Some names
      \<and> mapsToCache b (cachedMaps s) names = [a1, a2, a3]
      \<and> cached_record w (mapFilePath w a1) = Some d1 \<and> reports_own_name w a1
      \<and> cached_record w (mapFilePath w a2) = None \<and> cachedMaps s a2 = None
      \<and> cached_record w (mapFilePath w a3) = Some d3 \<and> reports_own_name w a3
      \<longrightarrow> fst (cacheMaps w b s) = Inr ()
        \<and> cachedMaps (snd (cacheMaps w b s)) a1 = Some d1
        \<and> cachedMaps (snd (cacheMaps w b s)) a2 = None
        \<and> cachedMaps (snd (cacheMaps w b s)) a3 = Some d3)"
proof (intro conjI impI)
  assume "cached_record w p = None"
  from cacheMap_failure [OF this, of s]
  show "fst (cacheMap w p s) = Inr ()" "cachedMaps (snd (cacheMap w p s)) = cachedMaps s"
    "db_maps (snd (cacheMap w p s)) = db_maps s"
    by simp_all
next
  assume r: "readdir w (getMapsPath w) = Some names"
  show "fst (cacheMaps w b s) = Inr ()"
    by (rule cacheMaps_effect(1) [OF r])
  show "parses_of (new_effects s (snd (cacheMaps w b s)))
          = map (mapFilePath w) (mapsToCache b (cachedMaps s) names)"
    by (rule cacheMaps_effect(5) [OF r])
next
  assume a: "readdir w (getMapsPath w) = Some names
      \<and> mapsToCache b (cachedMaps s) names = [a1, a2, a3]
      \<and> cached_record w (mapFilePath w a1) = Some d1 \<and> reports_own_name w a1
      \<and> cached_record w (mapFilePath w a2) = None \<and> cachedMaps s a2 = None
      \<and> cached_record w (mapFilePath w a3) = Some d3 \<and> reports_own_name w a3"
  then have r: "readdir w (getMapsPath w) = Some names" by simp
  from a have ne: "a1 \<noteq> a2" "a3 \<noteq> a2" by auto
  have s1: "store_record w a1 m = m(a1 \<mapsto> d1)" for m
    using a cached_record_key [of w a1 d1] by (simp add: store_record_def)
  have s2: "store_record w a2 m = m" for m
    using a by (simp add: store_record_def)
  have s3: "store_record w a3 m = m(a3 \<mapsto> d3)" for m
    using a cached_record_key [of w a3 d3] by (simp add: store_record_def)
  have "cachedMaps (snd (cacheMaps w b s)) = (cachedMaps s)(a1 \<mapsto> d1, a3 \<mapsto> d3)"
    using a by (simp add: cacheMaps_effect(2) [OF r] s1 s2 s3)
  with a ne show "cachedMaps (snd (cacheMaps w b s)) a1 = Some d1"
    "cachedMaps (snd (cacheMaps w b s)) a2 = None"
    "cachedMaps (snd (cacheMaps w b s)) a3 = Some d3"
    by (auto simp: cached_record_key)
  show "fst (cacheMaps w b s) = Inr ()"
    by (rule cacheMaps_effect(1) [OF r])
qed

theorem failure_isolation_witness:
  "fst (cacheMaps (example_world [''a.sd7'', ''bad.sd7'', ''c.sdz''] [''bad.sd7'']) False empty_state)
     = Inr ()
   \<and> cachedMaps (snd (cacheMaps (example_world [''a.sd7'', ''bad.sd7'', ''c.sdz''] [''bad.sd7''])
        False empty_state)) ''a.sd7'' \<noteq> None
   \<and> cachedMaps (snd (cacheMaps (example_world [''a.sd7'', ''bad.sd7'', ''c.sdz''] [''bad.sd7''])
        False empty_state)) ''bad.sd7'' = None
   \<and> cachedMaps (snd (cacheMaps (example_world [''a.sd7'', ''bad.sd7'', ''c.sdz''] [''bad.sd7''])
        False empty_state)) ''c.sdz'' \<noteq> None
   \<and> cachedMaps (snd (cacheMap (example_world [''a.sd7'', ''bad.sd7'', ''c.sdz''] [''bad.sd7''])
        ''data/maps/bad.sd7'' empty_state)) = cachedMaps empty_state"
proof -
  let ?names = "[''a.sd7'', ''bad.sd7'', ''c.sdz'']"
  let ?w = "example_world ?names [''bad.sd7'']"
  obtain d1 where d1: "cached_record ?w (mapFilePath ?w ''a.sd7'') = Some d1"
    using example_cached [of "''a.sd7''" "[''bad.sd7'']" ?names] by auto
  obtain d3 where d3: "cached_record ?w (mapFilePath ?w ''c.sdz'') = Some d3"
    using example_cached [of "''c.sdz''" "[''bad.sd7'']" ?names] by auto
  have d2: "cached_record ?w (mapFilePath ?w ''bad.sd7'') = None"
    by (rule example_corrupt) simp
  have ws: "mapsToCache False (cachedMaps empty_state) ?names = ?names"
    by (simp add: mapsToCache_def empty_state_def recognized_examples)
  have e: "cachedMaps empty_state ''bad.sd7'' = None"
    by (simp add: empty_state_def)
  note t = failure_isolation [where w = ?w and p = "mapFilePath ?w ''bad.sd7''" and s = empty_state
      and names = ?names and b = False and ?a1.0 = "''a.sd7''" and ?a2.0 = "''bad.sd7''"
      and ?a3.0 = "''c.sdz''" and ?d1.0 = d1 and ?d3.0 = d3]
  from t d1 d2 d3 ws e example_readdir [of ?names "[''bad.sd7'']"]
    example_own_name [of ?names "[''bad.sd7'']"]
  have "fst (cacheMaps ?w False empty_state) = Inr ()
      \<and> cachedMaps (snd (cacheMaps ?w False empty_state)) ''a.sd7'' = Some d1
      \<and> cachedMaps (snd (cacheMaps ?w False empty_state)) ''bad.sd7'' = None
      \<and> cachedMaps (snd (cacheMaps ?w False empty_state)) ''c.sdz'' = Some d3
      \<and> cachedMaps (snd (cacheMap ?w (mapFilePath ?w ''bad.sd7'') empty_state))
          = cachedMaps empty_state"
    by blast
  then show ?thesis
    by (simp add: example_mapFilePath)
qed


text \<open>
  C4. The work set of a forced batch is every listed file with one of the two
  extensions, whatever the index holds. An item that goes through writes its record
  under its own key \<open>fileNameWithExt\<close>, in the index and in the table, over whatever
  was there, and touches no other key. So after a forced batch every recognized file
  that goes through (the parser reporting each file under its own name) has been parsed
  again and has its new record under its name.
\<close>

theorem forced_recache:
  "mapsToCache True cached names = filter recognized names
   \<and> (cached_record w p = Some d \<longrightarrow>
        cachedMaps (snd (cacheMap w p s)) = (cachedMaps s)(fileNameWithExt d \<mapsto> d)
        \<and> db_maps (snd (cacheMap w p s)) = (db_maps s)(fileNameWithExt d \<mapsto> d))
   \<and> (readdir w (getMapsPath w) = Some names \<and> f \<in> set names \<and> recognized f
        \<and> cached_record w (mapFilePath w f) = Some r
        \<and> (\<forall>g\<in>set names. recognized g \<longrightarrow> reports_own_name w g)
      \<longrightarrow> mapFilePath w f \<in> set (parses_of (new_effects s (snd (cacheMaps w True s))))
        \<and> fileNameWithExt r = f
        \<and> cachedMaps (snd (cacheMaps w True s)) f = Some r
        \<and> db_maps (snd (cacheMaps w True s)) f = Some r)"
proof (intro conjI impI)
  show "mapsToCache True cached names = filter recognized names"
    by (simp add: mapsToCache_def)
next
  assume "cached_record w p = Some d"
  from cacheMap_success [OF this, of s]
  show "cachedMaps (snd (cacheMap w p s)) = (cachedMaps s)(fileNameWithExt d \<mapsto> d)"
    "db_maps (snd (cacheMap w p s)) = (db_maps s)(fileNameWithExt d \<mapsto> d)"
    by simp_all
next
  assume a: "readdir w (getMapsPath w) = Some names \<and> f \<in> set names \<and> recognized f
        \<and> cached_record w (mapFilePath w f) = Some r
        \<and> (\<forall>g\<in>set names. recognized g \<longrightarrow> reports_own_name w g)"
  then have r: "readdir w (getMapsPath w) = Some names" by simp
  from a have own: "\<forall>g\<in>set (mapsToCache True (cachedMaps s) names). reports_own_name w g"
    by (simp add: mapsToCache_set)
  from a have f: "f \<in> set (mapsToCache True (cachedMaps s) names)"
    by (simp add: mapsToCache_set)
  then show "mapFilePath w f \<in> set (parses_of (new_effects s (snd (cacheMaps w True s))))"
    by (simp add: cacheMaps_effect(5) [OF r])
  from a have "cached_record w (mapFilePath w f) = Some r" "reports_own_name w f"
    by simp_all
  then show "fileNameWithExt r = f"
    by (rule cached_record_key)
  from a f show "cachedMaps (snd (cacheMaps w True s)) f = Some r"
    by (simp add: cacheMaps_index(1) [OF r own])
  from a f show "db_maps (snd (cacheMaps w True s)) f = Some r"
    by (simp add: cacheMaps_index(2) [OF r own])
qed

theorem forced_recache_witness:
  "cachedMaps (stale_state ''a.sd7'') ''a.sd7'' = Some (stale_record ''a.sd7'')
   \<and> width (stale_record ''a.sd7'') = 2
   \<and> ''data/maps/a.sd7'' \<in> set (parses_of (new_effects (stale_state ''a.sd7'')
        (snd (cacheMaps (example_world [''a.sd7'', ''notes.txt''] []) True (stale_state ''a.sd7'')))))
   \<and> map_option width (cachedMaps
        (snd (cacheMaps (example_world [''a.sd7'', ''notes.txt''] []) True (stale_state ''a.sd7'')))
        ''a.sd7'') = Some 8"
proof -
  let ?names = "[''a.sd7'', ''notes.txt'']"
  let ?w = "example_world ?names []"
  obtain r where r: "cached_record ?w (mapFilePath ?w ''a.sd7'') = Some r"
    and p: "parseMapData (example_map ''a.sd7'') = Inr r"
    using example_cached [of "''a.sd7''" "[]" ?names] by auto
  have "sm_smf (example_map ''a.sd7'') = Some example_smf"
    by (simp add: example_map_def)
  with p have w8: "width r = 8"
    by (auto simp: parseMapData_def example_smf_def split: sum.splits)
  note t = forced_recache [where w = ?w and names = ?names and f = "''a.sd7''" and r = r
      and s = "stale_state ''a.sd7''" and p = "mapFilePath ?w ''a.sd7''" and d = r
      and cached = "cachedMaps (stale_state ''a.sd7'')"]
  from t r example_readdir [of ?names "[]"] example_own_name [of ?names "[]"]
  have "mapFilePath ?w ''a.sd7'' \<in> set (parses_of (new_effects (stale_state ''a.sd7'')
          (snd (cacheMaps ?w True (stale_state ''a.sd7'')))))
      \<and> cachedMaps (snd (cacheMaps ?w True (stale_state ''a.sd7''))) ''a.sd7'' = Some r"
    by (simp add: recognized_examples)
  with w8 show ?thesis
    by (simp add: example_mapFilePath stale_state_index stale_record_def)
qed

section \<open>Progress events\<close>

text \<open>
  C6, as the claim states it, fails: there is no event that opens a batch, and a batch
  with nothing to do (here an empty directory) emits nothing at all.
\<close>

theorem empty_batch_emits_nothing:
  "mapsToCache False (cachedMaps empty_state) [] = []
   \<and> fst (cacheMaps (example_world [] []) False empty_state) = Inr ()
   \<and> trace (snd (cacheMaps (example_world [] []) False empty_state)) = []"
  by (simp add: cacheMaps_def fs_readdir_def mapsToCache_def io_bind_def io_return_def
      getMapsPath_def path_join_def example_world_def empty_state_def)

text \<open>
  C6, amended. The only events are \<open>map-cache-progress\<close> and \<open>map-cached\<close>; no event
  opens a batch. A batch with an empty work set has no effect and emits nothing. A
  batch of \<open>K > 0\<close> items starts with the progress event of its first item, which carries
  \<open>totalMapsToCache = K\<close> and \<open>currentMapsCached = 0\<close> and comes before the first call of
  the parser. The events of the batch are, item by item in the order of the work set,
  exactly one progress event, carrying \<open>K\<close>, followed by the \<open>map-cached\<close> event of the
  item when the item goes through and by nothing when it fails. The parser is called
  exactly once per item, and the progress event of an item comes directly before the
  call of the parser on it. So every \<open>map-cached\<close> event comes directly after the
  progress event of the item whose record it carries.
\<close>

theorem batch_events:
  assumes "readdir w (getMapsPath w) = Some names"
  shows "(mapsToCache b (cachedMaps s) names = [] \<longrightarrow> new_effects s (snd (cacheMaps w b s)) = [])
    \<and> (mapsToCache b (cachedMaps s) names \<noteq> [] \<longrightarrow>
         (\<exists>rest. new_effects s (snd (cacheMaps w b s)) =
            Emit (Map_cache_progress
              \<lparr>totalMapsToCache = length (mapsToCache b (cachedMaps s) names),
               currentMapsCached = 0,
               currentMapCaching = hd (mapsToCache b (cachedMaps s) names)\<rparr>)
            # ParseMap (mapFilePath w (hd (mapsToCache b (cachedMaps s) names))) # rest))
    \<and> (\<forall>pr. Map_cache_progress pr \<in> set (events_of (new_effects s (snd (cacheMaps w b s))))
          \<longrightarrow> totalMapsToCache pr = length (mapsToCache b (cachedMaps s) names))
    \<and> (\<forall>i d. i < length (events_of (new_effects s (snd (cacheMaps w b s))))
          \<and> events_of (new_effects s (snd (cacheMaps w b s))) ! i = Map_cached d
          \<longrightarrow> 0 < i
            \<and> (\<exists>pr. events_of (new_effects s (snd (cacheMaps w b s))) ! (i - 1)
                       = Map_cache_progress pr
                  \<and> cached_record w (mapFilePath w (currentMapCaching pr)) = Some d))
    \<and> events_of (new_effects s (snd (cacheMaps w b s))) =
        concat (map (\<lambda>i. Map_cache_progress
                  \<lparr>totalMapsToCache = length (mapsToCache b (cachedMaps s) names),
                   currentMapsCached = i,
                   currentMapCaching = mapsToCache b (cachedMaps s) names ! i\<rparr>
                # (case cached_record w (mapFilePath w (mapsToCache b (cachedMaps s) names ! i)) of
                     None \<Rightarrow> [] | Some d \<Rightarrow> [Map_cached d]))
          [0..<length (mapsToCache b (cachedMaps s) names)])
    \<and> [pr. Map_cache_progress pr \<leftarrow> events_of (new_effects s (snd (cacheMaps w b s)))] =
        map (\<lambda>i. \<lparr>totalMapsToCache = length (mapsToCache b (cachedMaps s) names),
                  currentMapsCached = i,
                  currentMapCaching = mapsToCache b (cachedMaps s) names ! i\<rparr>)
          [0..<length (mapsToCache b (cachedMaps s) names)]
    \<and> parses_of (new_effects s (snd (cacheMaps w b s)))
        = map (mapFilePath w) (mapsToCache b (cachedMaps s) names)
    \<and> (\<forall>i<length (mapsToCache b (cachedMaps s) names).
         \<exists>pre post. new_effects s (snd (cacheMaps w b s)) =
            pre @ Emit (Map_cache_progress
              \<lparr>totalMapsToCache = length (mapsToCache b (cachedMaps s) names),
               currentMapsCached = i,
               currentMapCaching = mapsToCache b (cachedMaps s) names ! i\<rparr>)
            # ParseMap (mapFilePath w (mapsToCache b (cachedMaps s) names ! i)) # post
          \<and> parses_of pre = map (mapFilePath w) (take i (mapsToCache b (cachedMaps s) names)))"
proof (intro conjI impI allI)
  assume "mapsToCache b (cachedMaps s) names = []"
  then show "new_effects s (snd (cacheMaps w b s)) = []"
    by (simp add: cacheMaps_unfold [OF assms] io_return_def new_effects_def)
next
  assume "mapsToCache b (cachedMaps s) names \<noteq> []"
  then have "0 < length (mapsToCache b (cachedMaps s) names)" by simp
  from cacheMaps_progress [OF assms this]
  show "\<exists>rest. new_effects s (snd (cacheMaps w b s)) =
            Emit (Map_cache_progress
              \<lparr>totalMapsToCache = length (mapsToCache b (cachedMaps s) names),
               currentMapsCached = 0,
               currentMapCaching = hd (mapsToCache b (cachedMaps s) names)\<rparr>)
            # ParseMap (mapFilePath w (hd (mapsToCache b (cachedMaps s) names))) # rest"
    using \<open>mapsToCache b (cachedMaps s) names \<noteq> []\<close> by (auto simp: hd_conv_nth)
next
  fix pr
  assume "Map_cache_progress pr \<in> set (events_of (new_effects s (snd (cacheMaps w b s))))"
  then show "totalMapsToCache pr = length (mapsToCache b (cachedMaps s) names)"
    by (simp add: cacheMaps_effect(4) [OF assms] loop_events_total)
next
  fix i d
  assume "i < length (events_of (new_effects s (snd (cacheMaps w b s))))
          \<and> events_of (new_effects s (snd (cacheMaps w b s))) ! i = Map_cached d"
  then have "i < length (loop_events w (length (mapsToCache b (cachedMaps s) names))
                 (mapsToCache b (cachedMaps s) names) 0)"
    "loop_events w (length (mapsToCache b (cachedMaps s) names))
                 (mapsToCache b (cachedMaps s) names) 0 ! i = Map_cached d"
    by (simp_all add: cacheMaps_effect(4) [OF assms])
  from loop_events_started [OF this]
  show "0 < i" "\<exists>pr. events_of (new_effects s (snd (cacheMaps w b s))) ! (i - 1)
                       = Map_cache_progress pr
                  \<and> cached_record w (mapFilePath w (currentMapCaching pr)) = Some d"
    by (simp_all add: cacheMaps_effect(4) [OF assms])
next
  show "events_of (new_effects s (snd (cacheMaps w b s))) =
        concat (map (\<lambda>i. Map_cache_progress
                  \<lparr>totalMapsToCache = length (mapsToCache b (cachedMaps s) names),
                   currentMapsCached = i,
                   currentMapCaching = mapsToCache b (cachedMaps s) names ! i\<rparr>
                # (case cached_record w (mapFilePath w (mapsToCache b (cachedMaps s) names ! i)) of
                     None \<Rightarrow> [] | Some d \<Rightarrow> [Map_cached d]))
          [0..<length (mapsToCache b (cachedMaps s) names)])"
    unfolding cacheMaps_effect(4) [OF assms]
    by (subst loop_events_explicit) simp
next
  show "[pr. Map_cache_progress pr \<leftarrow> events_of (new_effects s (snd (cacheMaps w b s)))] =
        map (\<lambda>i. \<lparr>totalMapsToCache = length (mapsToCache b (cachedMaps s) names),
                  currentMapsCached = i,
                  currentMapCaching = mapsToCache b (cachedMaps s) names ! i\<rparr>)
          [0..<length (mapsToCache b (cachedMaps s) names)]"
    unfolding cacheMaps_effect(4) [OF assms]
    by (subst loop_events_progress) simp
next
  show "parses_of (new_effects s (snd (cacheMaps w b s)))
        = map (mapFilePath w) (mapsToCache b (cachedMaps s) names)"
    by (rule cacheMaps_effect(5) [OF assms])
next
  fix i
  assume "i < length (mapsToCache b (cachedMaps s) names)"
  from cacheMaps_progress [OF assms this]
  show "\<exists>pre post. new_effects s (snd (cacheMaps w b s)) =
            pre @ Emit (Map_cache_progress
              \<lparr>totalMapsToCache = length (mapsToCache b (cachedMaps s) names),
               currentMapsCached = i,
               currentMapCaching = mapsToCache b (cachedMaps s) names ! i\<rparr>)
            # ParseMap (mapFilePath w (mapsToCache b (cachedMaps s) names ! i)) # post
          \<and> parses_of pre = map (mapFilePath w) (take i (mapsToCache b (cachedMaps s) names))"
    by blast
qed


theorem batch_events_witness:
  "hd (new_effects empty_state
        (snd (cacheMaps (example_world [''bad.sd7'', ''c.sdz''] [''bad.sd7'']) False empty_state)))
     = Emit (Map_cache_progress
         \<lparr>totalMapsToCache = 2, currentMapsCached = 0, currentMapCaching = ''bad.sd7''\<rparr>)
   \<and> (\<exists>pr. events_of (new_effects empty_state
        (snd (cacheMaps (example_world [''bad.sd7'', ''c.sdz''] [''bad.sd7'']) False empty_state))) ! 1
        = Map_cache_progress pr \<and> currentMapCaching pr = ''c.sdz'' \<and> totalMapsToCache pr = 2)"
proof -
  let ?names = "[''bad.sd7'', ''c.sdz'']"
  let ?w = "example_world ?names [''bad.sd7'']"
  let ?t = "new_effects empty_state (snd (cacheMaps ?w False empty_state))"
  have ws: "mapsToCache False (cachedMaps empty_state) ?names = ?names"
    by (simp add: mapsToCache_def empty_state_def recognized_examples)
  obtain d where d: "cached_record ?w (mapFilePath ?w ''c.sdz'') = Some d"
    using example_cached [of "''c.sdz''" "[''bad.sd7'']" ?names] by auto
  have bad: "cached_record ?w (mapFilePath ?w ''bad.sd7'') = None"
    by (rule example_corrupt) simp
  have ev: "events_of ?t =
     [Map_cache_progress
        \<lparr>totalMapsToCache = 2, currentMapsCached = 0, currentMapCaching = ''bad.sd7''\<rparr>,
      Map_cache_progress
        \<lparr>totalMapsToCache = 2, currentMapsCached = 1, currentMapCaching = ''c.sdz''\<rparr>,
      Map_cached d]"
    by (simp add: cacheMaps_effect(4) [OF example_readdir] ws item_events_def d bad)
  note t = batch_events [OF example_readdir [of ?names "[''bad.sd7'']"],
      where b = False and s = empty_state]
  note t2 = t [THEN conjunct2, THEN conjunct1]
  note t3 = t [THEN conjunct2, THEN conjunct2, THEN conjunct1]
  note t4 = t [THEN conjunct2, THEN conjunct2, THEN conjunct2, THEN conjunct1]
  from t2 ws have "\<exists>rest. ?t = Emit (Map_cache_progress
         \<lparr>totalMapsToCache = 2, currentMapsCached = 0, currentMapCaching = ''bad.sd7''\<rparr>)
       # ParseMap (mapFilePath ?w ''bad.sd7'') # rest"
    by (auto simp: numeral_2_eq_2)
  then have first: "hd ?t = Emit (Map_cache_progress
         \<lparr>totalMapsToCache = 2, currentMapsCached = 0, currentMapCaching = ''bad.sd7''\<rparr>)"
    by auto
  from ev have "2 < length (events_of ?t) \<and> events_of ?t ! 2 = Map_cached d"
    by simp
  with t4 have "\<exists>pr. events_of ?t ! (2 - 1) = Map_cache_progress pr
      \<and> cached_record ?w (mapFilePath ?w (currentMapCaching pr)) = Some d"
    by blast
  then obtain pr where pr: "events_of ?t ! 1 = Map_cache_progress pr"
    by auto
  with ev have "Map_cache_progress pr \<in> set (events_of ?t)" "currentMapCaching pr = ''c.sdz''"
    by auto
  with t3 ws pr have "events_of ?t ! 1 = Map_cache_progress pr \<and> currentMapCaching pr = ''c.sdz''
      \<and> totalMapsToCache pr = 2"
    by (auto simp: numeral_2_eq_2)
  with first show ?thesis by blast
qed

text \<open>
  C7, as the claim states it, fails: the counter is incremented after every item, also
  after one that failed. Here both archives are rejected by the parser, nothing is ever
  cached, and the progress event of the second item still carries
  \<open>currentMapsCached = 1\<close>.
\<close>

theorem failed_item_is_counted:
  "events_of (trace (snd (cacheMaps
      (example_world [''a.sd7'', ''b.sd7''] [''a.sd7'', ''b.sd7'']) False empty_state)))
     = [Map_cache_progress
          \<lparr>totalMapsToCache = 2, currentMapsCached = 0, currentMapCaching = ''a.sd7''\<rparr>,
        Map_cache_progress
          \<lparr>totalMapsToCache = 2, currentMapsCached = 1, currentMapCaching = ''b.sd7''\<rparr>]
   \<and> cachedMaps (snd (cacheMaps
      (example_world [''a.sd7'', ''b.sd7''] [''a.sd7'', ''b.sd7'']) False empty_state)) ''a.sd7''
     = None
   \<and> db_maps (snd (cacheMaps
      (example_world [''a.sd7'', ''b.sd7''] [''a.sd7'', ''b.sd7'']) False empty_state)) ''a.sd7''
     = None"
  by (simp add: cacheMaps_def fs_readdir_def mapsToCache_def recognized_def endsWith_def
      cacheMap_body getMapsPath_def path_join_def example_world_def empty_state_def)

text \<open>
  C7, amended. The progress event of an item is directly followed by the call of the
  parser on that item, and carries as \<open>currentMapsCached\<close> the position of the item in the
  work set: the number of items of this batch that were attempted before it, whether
  they were cached or failed.
\<close>

theorem progress_counts_attempts:
  assumes "readdir w (getMapsPath w) = Some names"
    and "i < length (mapsToCache b (cachedMaps s) names)"
  shows "\<exists>pre post. new_effects s (snd (cacheMaps w b s)) =
       pre @ Emit (Map_cache_progress
          \<lparr>totalMapsToCache = length (mapsToCache b (cachedMaps s) names),
           currentMapsCached = i,
           currentMapCaching = mapsToCache b (cachedMaps s) names ! i\<rparr>)
        # ParseMap (mapFilePath w (mapsToCache b (cachedMaps s) names ! i)) # post
     \<and> parses_of pre = map (mapFilePath w) (take i (mapsToCache b (cachedMaps s) names))
     \<and> length (parses_of pre) = i"
proof -
  from cacheMaps_progress [OF assms] obtain pre post where
    p: "new_effects s (snd (cacheMaps w b s)) =
       pre @ Emit (Map_cache_progress
          \<lparr>totalMapsToCache = length (mapsToCache b (cachedMaps s) names),
           currentMapsCached = i,
           currentMapCaching = mapsToCache b (cachedMaps s) names ! i\<rparr>)
        # ParseMap (mapFilePath w (mapsToCache b (cachedMaps s) names ! i)) # post"
      "parses_of pre = map (mapFilePath w) (take i (mapsToCache b (cachedMaps s) names))"
    by blast
  from p(2) assms(2) have "length (parses_of pre) = i" by simp
  with p show ?thesis by blast
qed

theorem progress_counts_attempts_witness:
  "\<exists>pre post. new_effects empty_state
        (snd (cacheMaps (example_world [''bad.sd7'', ''c.sdz''] [''bad.sd7'']) False empty_state))
     = pre @ Emit (Map_cache_progress
          \<lparr>totalMapsToCache = 2, currentMapsCached = 1, currentMapCaching = ''c.sdz''\<rparr>)
        # ParseMap ''data/maps/c.sdz'' # post
     \<and> parses_of pre = [''data/maps/bad.sd7'']"
proof -
  let ?names = "[''bad.sd7'', ''c.sdz'']"
  let ?w = "example_world ?names [''bad.sd7'']"
  have ws: "mapsToCache False (cachedMaps empty_state) ?names = ?names"
    by (simp add: mapsToCache_def empty_state_def recognized_examples)
  then have "1 < length (mapsToCache False (cachedMaps empty_state) ?names)"
    by simp
  from progress_counts_attempts [OF example_readdir this, of "[''bad.sd7'']"] show ?thesis
    by (auto simp: ws example_mapFilePath numeral_2_eq_2)
qed

section \<open>Retrying\<close>

text \<open>
  C10, as the claim states it, fails: an archive that is in the index from an earlier
  run and whose forced re-caching fails keeps its old record, so the next incremental
  batch does not have it in its work set and does not call the parser on it.
\<close>

theorem failed_forced_item_is_not_retried:
  "parses_of (new_effects (stale_state ''a.sd7'')
      (snd (cacheMaps (example_world [''a.sd7''] [''a.sd7'']) True (stale_state ''a.sd7''))))
     = [''data/maps/a.sd7'']
   \<and> ConsoleError ''data/maps/a.sd7'' ParseError \<in> set (trace
      (snd (cacheMaps (example_world [''a.sd7''] [''a.sd7'']) True (stale_state ''a.sd7''))))
   \<and> mapsToCache False (cachedMaps
      (snd (cacheMaps (example_world [''a.sd7''] [''a.sd7'']) True (stale_state ''a.sd7''))))
      [''a.sd7''] = []
   \<and> new_effects
      (snd (cacheMaps (example_world [''a.sd7''] [''a.sd7'']) True (stale_state ''a.sd7'')))
      (snd (cacheMaps (example_world [''a.sd7''] [''a.sd7'']) False
         (snd (cacheMaps (example_world [''a.sd7''] [''a.sd7'']) True (stale_state ''a.sd7'')))))
     = []"
  by (simp add: cacheMaps_def fs_readdir_def mapsToCache_def recognized_def endsWith_def
      cacheMap_body getMapsPath_def path_join_def example_world_def stale_state_def
      new_effects_def)

text \<open>
  C10, amended. An archive of the listing that is not a key of the index and whose
  processing fails is in the work set of every incremental batch that follows, over
  the same directory, and the parser is called on it in each of them; it never enters
  the index (the parser reporting every file under its own name). An archive that
  failed in a forced batch while the index still has an older record of it is not
  retried.
\<close>

theorem failed_item_is_retried:
  assumes "readdir w (getMapsPath w) = Some names"
    and "f \<in> set names" "recognized f"
    and "cachedMaps s f = None"
    and "cached_record w (mapFilePath w f) = None"
    and "\<forall>g\<in>set names. recognized g \<longrightarrow> reports_own_name w g"
  shows "f \<in> set (mapsToCache False (cachedMaps (incremental_batches w n s)) names)
    \<and> mapFilePath w f \<in> set (parses_of (new_effects (incremental_batches w n s)
                                          (incremental_batches w (Suc n) s)))
    \<and> cachedMaps (incremental_batches w (Suc n) s) f = None"
proof -
  have own: "\<forall>g\<in>set (mapsToCache False (cachedMaps t) names). reports_own_name w g"
    for t :: state
    using assms(6) by (simp add: mapsToCache_set)
  have step: "cachedMaps (snd (cacheMaps w False t)) f = None" if "cachedMaps t f = None"
    for t :: state
    using that assms(5) by (simp add: cacheMaps_index(1) [OF assms(1) own])
  have inv: "cachedMaps (incremental_batches w k s) f = None" for k
    by (induction k) (simp_all add: assms(4) step)
  then have "f \<in> set (mapsToCache False (cachedMaps (incremental_batches w n s)) names)"
    using assms(2,3) by (simp add: mapsToCache_set)
  then show ?thesis
    using inv [of "Suc n"] by (simp add: cacheMaps_effect(5) [OF assms(1)])
qed

theorem failed_item_is_retried_witness:
  "''data/maps/bad.sd7'' \<in> set (parses_of (new_effects
      (incremental_batches (example_world [''bad.sd7'', ''c.sdz''] [''bad.sd7'']) 2 empty_state)
      (incremental_batches (example_world [''bad.sd7'', ''c.sdz''] [''bad.sd7'']) 3 empty_state)))
   \<and> cachedMaps
      (incremental_batches (example_world [''bad.sd7'', ''c.sdz''] [''bad.sd7'']) 3 empty_state)
      ''bad.sd7'' = None"
proof -
  let ?names = "[''bad.sd7'', ''c.sdz'']"
  let ?w = "example_world ?names [''bad.sd7'']"
  have "''bad.sd7'' \<in> set ?names" "recognized ''bad.sd7''" "cachedMaps empty_state ''bad.sd7'' = None"
    "cached_record ?w (mapFilePath ?w ''bad.sd7'') = None"
    "\<forall>g\<in>set ?names. recognized g \<longrightarrow> reports_own_name ?w g"
    by (simp_all add: recognized_examples empty_state_def example_corrupt example_own_name)
  from failed_item_is_retried [OF example_readdir this, of 2] show ?thesis
    by (simp add: example_mapFilePath numeral_3_eq_3)
qed


end
